(* ===== verification/JS_Prelude.thy ===== *)
theory JS_Prelude
  imports Main "HOL-Library.Sublist"
begin

text \<open>
  Shared vocabulary of the development. JavaScript strings are sequences of UTF-16
  code units; the model uses HOL's \<open>string\<close> (a list of 8-bit \<open>char\<close>s), which
  is exact for the ASCII paths, platform tags, version strings and flags the
  utilities of \<^verbatim>\<open>src/lib/utilities.ts\<close> handle. This theory holds the character
  constants, \<open>String.prototype.slice\<close> on in-range indices,
  \<open>Array.prototype.join\<close>, the \<open>scan_simps\<close> collection that the
  right-to-left scanning loops of \<^verbatim>\<open>path\<close> use, and generic list lemmas
  (indexed traversal with \<open>enumerate\<close>, joins of appended lists).
\<close>

named_theorems scan_simps "equations that unfold the right-to-left scans of path strings"

type_synonym js_string = string

abbreviation slash :: char where "slash \<equiv> CHR ''/''"
abbreviation dot :: char where "dot \<equiv> CHR ''.''"
abbreviation space :: char where "space \<equiv> CHR '' ''"

text \<open>
  The exceptions the modelled code can raise or propagate: a \<open>TypeError\<close> of the
  language (a method called on a value that has none), and the rejection of a host
  query, whose message reaches the caller unchanged.
\<close>

datatype js_error = TypeError js_string | HostError js_string

subsection \<open>String slices and array joins\<close>

text \<open>
  \<open>String.prototype.slice(a, b)\<close> for \<open>0 \<le> a\<close> and \<open>0 \<le> b\<close>, the only
  form in which \<^verbatim>\<open>path\<close> calls it: the code units from index \<open>a\<close> up to
  (excluding) \<open>b\<close>, empty when \<open>b \<le> a\<close>, clamped at the end of the string.
\<close>

definition js_slice :: "js_string \<Rightarrow> nat \<Rightarrow> nat \<Rightarrow> js_string" where
  "js_slice s a b = take (b - a) (drop a s)"

text \<open>\<open>Array.prototype.join(sep)\<close> on an array of strings.\<close>

fun join_with :: "js_string \<Rightarrow> js_string list \<Rightarrow> js_string" where
  "join_with sep [] = []"
| "join_with sep [x] = x"
| "join_with sep (x # y # zs) = x @ sep @ join_with sep (y # zs)"

subsection \<open>Generic lemmas\<close>

lemma js_slice_append_mid [simp]:
  "js_slice (u @ v @ w) (length u) (length u + length v) = v"
  by (simp add: js_slice_def)

lemma js_slice_empty [simp]: "b \<le> a \<Longrightarrow> js_slice s a b = []"
  by (simp add: js_slice_def)

lemma js_slice_append:
  "a \<le> m \<Longrightarrow> m \<le> e \<Longrightarrow> js_slice s a m @ js_slice s m e = js_slice s a e"
proof -
  assume am: "a \<le> m" and me: "m \<le> e"
  have "take (e - a) (drop a s) = take ((m - a) + (e - m)) (drop a s)"
    using am me by simp
  also have "\<dots> = take (m - a) (drop a s) @ take (e - m) (drop (m - a) (drop a s))"
    by (rule take_add)
  also have "drop (m - a) (drop a s) = drop m s" using am by simp
  finally show ?thesis by (simp add: js_slice_def)
qed

lemma join_with_Cons:
  "join_with sep (x # xs) = (if xs = [] then x else x @ sep @ join_with sep xs)"
  by (cases xs) simp_all

lemma rev_enumerate_append [scan_simps]:
  "rev (enumerate n (xs @ ys)) = rev (enumerate (n + length xs) ys) @ rev (enumerate n xs)"
  by (simp add: enumerate_append_eq)

lemma rev_enumerate_Cons [scan_simps]:
  "rev (enumerate n (x # xs)) = rev (enumerate (Suc n) xs) @ [(n, x)]"
  by simp

lemma join_with_append:
  "xs \<noteq> [] \<Longrightarrow> ys \<noteq> [] \<Longrightarrow> join_with sep (xs @ ys) = join_with sep xs @ sep @ join_with sep ys"
proof (induction sep xs rule: join_with.induct)
  case (2 sep x)
  then show ?case by (cases ys) simp_all
qed simp_all

end
