(* ===== verification/JS_Strings.thy ===== *)
theory JS_Strings
  imports JS_Prelude
begin

text \<open>
  The ECMAScript string built-ins the utilities call, modelled from the
  language specification (they are not code of the repository):
  \<^item> \<open>string_index_of\<close>: the abstract operation StringIndexOf, the search
    used by \<open>split\<close> and by the matching of literal regular expressions;
  \<^item> \<open>js_split\<close>: \<open>String.prototype.split(separator)\<close> with a string
    separator and no limit (\<^verbatim>\<open>flag.split(' ')\<close> in \<open>splitFlagAndValue\<close>);
  \<^item> \<open>regexp_obj\<close>, \<open>regexp_exec\<close>, \<open>regexp_test\<close>: a RegExp object whose
    pattern is a plain character sequence (\<^verbatim>\<open>/CentOS/g\<close>, \<^verbatim>\<open>/alios7/g\<close>),
    with its \<open>lastIndex\<close> state and the global flag.
  The lemmas show that \<open>split\<close> loses nothing (joining the pieces with the
  separator gives the string back), that no piece contains the separator, how many
  pieces a one-character separator gives, and that a literal RegExp evaluated afresh
  tests for a substring while a shared global one does not.
\<close>

subsection \<open>StringIndexOf\<close>

function string_index_of :: "js_string \<Rightarrow> js_string \<Rightarrow> nat \<Rightarrow> nat option" where
  "string_index_of s r i =
     (if length s < i + length r then None
      else if take (length r) (drop i s) = r then Some i
      else string_index_of s r (Suc i))"
  by pat_completeness auto
termination
  by (relation "measure (\<lambda>(s, r, i). Suc (length s) - i)") auto

declare string_index_of.simps [simp del]

text \<open>A found index is the first occurrence at or after the start index.\<close>

lemma string_index_of_Some:
  "string_index_of s r i = Some j \<Longrightarrow>
     i \<le> j \<and> j + length r \<le> length s \<and> take (length r) (drop j s) = r \<and>
     (\<forall>k. i \<le> k \<and> k < j \<longrightarrow> take (length r) (drop k s) \<noteq> r)"
proof (induction s r i rule: string_index_of.induct)
  case (1 s r i)
  show ?case
  proof (cases "length s < i + length r")
    case True
    with "1.prems" show ?thesis by (simp add: string_index_of.simps [of s r i])
  next
    case False
    show ?thesis
    proof (cases "take (length r) (drop i s) = r")
      case True
      with False "1.prems" have "j = i" by (simp add: string_index_of.simps [of s r i])
      with True False show ?thesis by auto
    next
      case nomatch: False
      with False "1.prems" have "string_index_of s r (Suc i) = Some j"
        by (simp add: string_index_of.simps [of s r i])
      with False nomatch "1.IH" have IH: "Suc i \<le> j \<and> j + length r \<le> length s \<and>
          take (length r) (drop j s) = r \<and>
          (\<forall>k. Suc i \<le> k \<and> k < j \<longrightarrow> take (length r) (drop k s) \<noteq> r)"
        by blast
      have "\<And>k. i \<le> k \<Longrightarrow> k < j \<Longrightarrow> take (length r) (drop k s) \<noteq> r"
      proof -
        fix k assume "i \<le> k" "k < j"
        then consider "k = i" | "Suc i \<le> k" by linarith
        then show "take (length r) (drop k s) \<noteq> r"
          using nomatch IH \<open>k < j\<close> by cases auto
      qed
      with IH show ?thesis by auto
    qed
  qed
qed

lemma string_index_of_None:
  "string_index_of s r i = None \<Longrightarrow>
     (\<forall>k. i \<le> k \<and> k + length r \<le> length s \<longrightarrow> take (length r) (drop k s) \<noteq> r)"
proof (induction s r i rule: string_index_of.induct)
  case (1 s r i)
  show ?case
  proof (cases "length s < i + length r")
    case True
    then show ?thesis by auto
  next
    case False
    with "1.prems" have "take (length r) (drop i s) \<noteq> r" and
      "string_index_of s r (Suc i) = None"
      by (auto simp add: string_index_of.simps [of s r i] split: if_splits)
    with False "1.IH" have IH: "\<forall>k. Suc i \<le> k \<and> k + length r \<le> length s \<longrightarrow>
        take (length r) (drop k s) \<noteq> r"
      by blast
    show ?thesis
    proof (intro allI impI)
      fix k assume k: "i \<le> k \<and> k + length r \<le> length s"
      then consider "k = i" | "Suc i \<le> k" by linarith
      then show "take (length r) (drop k s) \<noteq> r"
        using \<open>take (length r) (drop i s) \<noteq> r\<close> IH k by cases auto
    qed
  qed
qed

subsection \<open>String.prototype.split\<close>

text \<open>
  The loop of steps 12--17 of \<open>String.prototype.split\<close>: from index \<open>i\<close>,
  find the next occurrence \<open>j\<close> of the separator, emit the slice \<open>[i, j)\<close>,
  continue after the occurrence; the rest of the string is the last piece. The
  separator is non-empty here (\<open>c # cs\<close>), so every round advances. The limit
  \<open>2^32 - 1\<close> of an omitted \<open>limit\<close> argument is never reached by strings of
  the lengths engines allow, and is left out.
\<close>

function split_from :: "js_string \<Rightarrow> char \<Rightarrow> js_string \<Rightarrow> nat \<Rightarrow> js_string list" where
  "split_from s c cs i =
     (case string_index_of s (c # cs) i of
        None \<Rightarrow> [drop i s]
      | Some j \<Rightarrow> js_slice s i j # split_from s c cs (j + length (c # cs)))"
  by pat_completeness auto
termination
  by (relation "measure (\<lambda>(s, c, cs, i). Suc (length s) - i)")
    (auto dest: string_index_of_Some)

declare split_from.simps [simp del]

text \<open>
  \<open>S.split(R)\<close> with the limit omitted: an empty separator splits into code
  units (step 9), an empty string gives one empty piece (step 10), otherwise the
  loop above from index 0.
\<close>

definition js_split :: "js_string \<Rightarrow> js_string \<Rightarrow> js_string list" where
  "js_split s r =
     (case r of
        [] \<Rightarrow> map (\<lambda>u. [u]) s
      | c # cs \<Rightarrow> if s = [] then [s] else split_from s c cs 0)"

text \<open>
  The abstract reading of a split on one character: the maximal runs between
  occurrences of the character, empty runs included.
\<close>

fun split_on_char :: "char \<Rightarrow> js_string \<Rightarrow> js_string list" where
  "split_on_char c [] = [[]]"
| "split_on_char c (x # xs) =
     (let ws = split_on_char c xs in if x = c then [] # ws else (x # hd ws) # tl ws)"

subsection \<open>Regular expressions with a literal pattern\<close>

text \<open>
  A RegExp object keeps its \<open>lastIndex\<close>. \<open>RegExpBuiltinExec\<close> starts the
  search at \<open>lastIndex\<close> when the global flag is set and at 0 otherwise; with the
  flag set, a match stores its end index in \<open>lastIndex\<close> and a failure resets it to
  0. The pattern is a sequence of ordinary characters, so a match at index \<open>j\<close>
  is an occurrence of the source text starting there (\<open>string_index_of\<close>).
  A regular-expression literal is evaluated to a new object, with \<open>lastIndex\<close>
  0, every time the expression containing it is evaluated.
\<close>

record regexp_obj =
  re_source :: js_string
  re_global :: bool
  last_index :: nat

definition regexp_literal :: "js_string \<Rightarrow> bool \<Rightarrow> regexp_obj" where
  "regexp_literal src g = \<lparr>re_source = src, re_global = g, last_index = 0\<rparr>"

definition regexp_exec :: "regexp_obj \<Rightarrow> js_string \<Rightarrow> nat option \<times> regexp_obj" where
  "regexp_exec r s =
     (let li = (if re_global r then last_index r else 0) in
      if length s < li then (None, if re_global r then r\<lparr>last_index := 0\<rparr> else r)
      else case string_index_of s (re_source r) li of
             None \<Rightarrow> (None, if re_global r then r\<lparr>last_index := 0\<rparr> else r)
           | Some j \<Rightarrow> (Some j,
               if re_global r then r\<lparr>last_index := j + length (re_source r)\<rparr> else r))"

definition regexp_test :: "regexp_obj \<Rightarrow> js_string \<Rightarrow> bool \<times> regexp_obj" where
  "regexp_test r s = (let (m, r') = regexp_exec r s in (m \<noteq> None, r'))"

subsection \<open>Properties of split\<close>

lemma split_from_simps_Some [scan_simps]:
  "string_index_of s (c # cs) i = Some j \<Longrightarrow>
     split_from s c cs i = js_slice s i j # split_from s c cs (j + length (c # cs))"
  by (simp add: split_from.simps [of s c cs i])

lemma split_from_simps_None [scan_simps]:
  "string_index_of s (c # cs) i = None \<Longrightarrow> split_from s c cs i = [drop i s]"
  by (simp add: split_from.simps [of s c cs i])

lemma split_from_not_Nil: "split_from s c cs i \<noteq> []"
  by (cases "string_index_of s (c # cs) i") (simp_all add: scan_simps)

text \<open>Joining the pieces with the separator gives back the rest of the string.\<close>

lemma split_from_join:
  "join_with (c # cs) (split_from s c cs i) = drop i s"
proof (induction s c cs i rule: split_from.induct)
  case (1 s c cs i)
  show ?case
  proof (cases "string_index_of s (c # cs) i")
    case None
    then show ?thesis by (simp add: scan_simps)
  next
    case (Some j)
    note occ = string_index_of_Some [OF Some]
    have rest: "join_with (c # cs) (split_from s c cs (j + length (c # cs))) =
        drop (j + length (c # cs)) s"
      using "1.IH" Some by simp
    have "drop i s = take (j - i) (drop i s) @ drop (j - i) (drop i s)"
      by (rule append_take_drop_id [symmetric])
    also have "drop (j - i) (drop i s) = drop j s"
      using occ by simp
    also have "drop j s = take (length (c # cs)) (drop j s) @ drop (length (c # cs)) (drop j s)"
      by (rule append_take_drop_id [symmetric])
    also have "\<dots> = (c # cs) @ drop (j + length (c # cs)) s"
      using occ by (simp add: add.commute)
    finally have "drop i s = js_slice s i j @ (c # cs) @ drop (j + length (c # cs)) s"
      by (simp add: js_slice_def)
    then show ?thesis
      using Some rest split_from_not_Nil [of s c cs "j + length (c # cs)"]
      by (simp only: split_from_simps_Some join_with_Cons if_False)
  qed
qed

lemma sublist_take_drop_iff:
  "sublist r w \<longleftrightarrow> (\<exists>k. k + length r \<le> length w \<and> take (length r) (drop k w) = r)"
proof
  assume "sublist r w"
  then obtain u v where "w = u @ r @ v" by (auto simp: sublist_def)
  then show "\<exists>k. k + length r \<le> length w \<and> take (length r) (drop k w) = r"
    by (intro exI [of _ "length u"]) simp
next
  assume "\<exists>k. k + length r \<le> length w \<and> take (length r) (drop k w) = r"
  then obtain k where k: "k + length r \<le> length w" "take (length r) (drop k w) = r" by blast
  have "w = take k w @ drop k w" by simp
  also have "drop k w = take (length r) (drop k w) @ drop (length r) (drop k w)"
    by (rule append_take_drop_id [symmetric])
  finally have "w = take k w @ r @ drop (length r) (drop k w)" using k by simp
  then show "sublist r w" by (metis sublist_appendI)
qed

text \<open>No piece contains an occurrence of the separator.\<close>

lemma split_from_no_separator:
  "w \<in> set (split_from s c cs i) \<Longrightarrow> \<not> sublist (c # cs) w"
proof (induction s c cs i rule: split_from.induct)
  case (1 s c cs i)
  show ?case
  proof (cases "string_index_of s (c # cs) i")
    case None
    with "1.prems" have w: "w = drop i s" by (simp add: scan_simps)
    show ?thesis
    proof
      assume "sublist (c # cs) w"
      then obtain k where "k + length (c # cs) \<le> length (drop i s)"
          "take (length (c # cs)) (drop k (drop i s)) = c # cs"
        unfolding sublist_take_drop_iff w by blast
      with string_index_of_None [OF None, rule_format, of "i + k"] show False
        by (simp add: add.commute)
    qed
  next
    case (Some j)
    note occ = string_index_of_Some [OF Some]
    consider "w = js_slice s i j" | "w \<in> set (split_from s c cs (j + length (c # cs)))"
      using "1.prems" Some by (auto simp add: scan_simps)
    then show ?thesis
    proof cases
      case 1
      show ?thesis
      proof
        assume "sublist (c # cs) w"
        then obtain k where k: "k + length (c # cs) \<le> length w"
            "take (length (c # cs)) (drop k w) = c # cs"
          unfolding sublist_take_drop_iff by blast
        from k(1) 1 have le: "k + length (c # cs) \<le> j - i" by (simp add: js_slice_def)
        have "take (length (c # cs)) (drop k w) =
            take (length (c # cs)) (take (j - i - k) (drop (i + k) s))"
          by (simp add: 1 js_slice_def drop_take add.commute)
        also have "\<dots> = take (length (c # cs)) (drop (i + k) s)"
          using le by (simp add: min_def)
        finally have "take (length (c # cs)) (drop (i + k) s) = c # cs" using k(2) by simp
        moreover from le occ have "i \<le> i + k" "i + k < j" by auto
        ultimately show False using occ by blast
      qed
    next
      case 2
      with "1.IH" Some show ?thesis by simp
    qed
  qed
qed

lemma split_on_char_not_Nil: "split_on_char c xs \<noteq> []"
  by (induction xs) (simp_all add: Let_def)

lemma split_on_char_no_sep: "c \<notin> set u \<Longrightarrow> split_on_char c u = [u]"
  by (induction u) (auto simp add: Let_def)

lemma split_on_char_append_sep:
  "c \<notin> set u \<Longrightarrow> split_on_char c (u @ c # v) = u # split_on_char c v"
  by (induction u) (auto simp add: Let_def)

lemma length_split_on_char: "length (split_on_char c s) = count_list s c + 1"
proof (induction s)
  case (Cons x xs)
  then show ?case
    using split_on_char_not_Nil [of c xs] by (cases "split_on_char c xs") (simp_all add: Let_def)
qed simp

text \<open>For a one-character separator the loop computes the abstract split.\<close>

lemma split_from_char:
  "split_from s c [] i = split_on_char c (drop i s)"
proof (induction s c "[] :: js_string" i rule: split_from.induct)
  case (1 s c i)
  show ?case
  proof (cases "string_index_of s [c] i")
    case None
    have "c \<notin> set (drop i s)"
    proof
      assume "c \<in> set (drop i s)"
      then obtain k where "k < length (drop i s)" "drop i s ! k = c"
        by (auto simp: in_set_conv_nth)
      then have "take 1 (drop (i + k) s) = [c]"
        by (simp add: take_Suc_conv_app_nth Cons_nth_drop_Suc add.commute)
      with string_index_of_None [OF None, rule_format, of "i + k"] \<open>k < length (drop i s)\<close>
      show False by simp
    qed
    with None show ?thesis by (simp add: scan_simps split_on_char_no_sep)
  next
    case (Some j)
    note occ = string_index_of_Some [OF Some]
    have sj: "s ! j = c" and ij: "i \<le> j" "j < length s"
      using occ by (auto simp: take_Suc_conv_app_nth)
    have nc: "c \<notin> set (js_slice s i j)"
    proof
      assume "c \<in> set (js_slice s i j)"
      then obtain k where "k < j - i" "s ! (i + k) = c"
        using ij by (auto simp: js_slice_def in_set_conv_nth)
      then have "take 1 (drop (i + k) s) = [c]" "i + k < j"
        using ij by (simp_all add: take_Suc_conv_app_nth)
      with occ show False by auto
    qed
    have "drop i s = take (j - i) (drop i s) @ drop (j - i) (drop i s)"
      by (rule append_take_drop_id [symmetric])
    also have "drop (j - i) (drop i s) = s ! j # drop (Suc j) s"
      using ij by (simp add: Cons_nth_drop_Suc)
    finally have "drop i s = js_slice s i j @ c # drop (Suc j) s"
      using sj by (simp add: js_slice_def)
    with "1" Some nc show ?thesis
      by (simp add: scan_simps split_on_char_append_sep)
  qed
qed

subsection \<open>Properties of the built-ins\<close>

text \<open>Splitting and joining with the same non-empty separator is the identity.\<close>

lemma js_split_join: "r \<noteq> [] \<Longrightarrow> join_with r (js_split s r) = s"
  by (cases r) (auto simp add: js_split_def split_from_join)

lemma js_split_no_separator:
  "r \<noteq> [] \<Longrightarrow> w \<in> set (js_split s r) \<Longrightarrow> \<not> sublist r w"
  by (cases r) (auto simp add: js_split_def split_from_no_separator split: if_splits)

lemma js_split_char: "js_split s [c] = split_on_char c s"
  by (simp add: js_split_def split_from_char)

lemma string_index_of_found_iff:
  "string_index_of s r i \<noteq> None \<longleftrightarrow>
     (\<exists>k. i \<le> k \<and> k + length r \<le> length s \<and> take (length r) (drop k s) = r)"
proof
  assume "string_index_of s r i \<noteq> None"
  then obtain j where "string_index_of s r i = Some j" by blast
  from string_index_of_Some [OF this] show "\<exists>k. i \<le> k \<and> k + length r \<le> length s \<and>
      take (length r) (drop k s) = r" by blast
next
  assume "\<exists>k. i \<le> k \<and> k + length r \<le> length s \<and> take (length r) (drop k s) = r"
  then show "string_index_of s r i \<noteq> None"
    using string_index_of_None by blast
qed

text \<open>
  A literal evaluated afresh starts its search at index 0 whatever its flags, so its
  \<open>test\<close> is the substring test.
\<close>

lemma regexp_test_literal:
  "fst (regexp_test (regexp_literal src g) s) \<longleftrightarrow> sublist src s"
proof -
  have "fst (regexp_test (regexp_literal src g) s) \<longleftrightarrow> string_index_of s src 0 \<noteq> None"
    by (simp add: regexp_test_def regexp_exec_def regexp_literal_def split: option.splits)
  also have "\<dots> \<longleftrightarrow> sublist src s"
    using string_index_of_found_iff [of s src 0] by (simp add: sublist_take_drop_iff)
  finally show ?thesis .
qed

text \<open>
  The same global object used twice on the same text does not answer the same: the
  first match moves \<open>lastIndex\<close> past the only occurrence.
\<close>

lemma regexp_test_shared_global:
  "fst (regexp_test (regexp_literal ''CentOS'' True) ''CentOS Linux'') \<and>
   \<not> fst (regexp_test (snd (regexp_test (regexp_literal ''CentOS'' True) ''CentOS Linux''))
              ''CentOS Linux'')"
  by code_simp

lemma split_on_char_join:
  "xs \<noteq> [] \<Longrightarrow> (\<forall>s \<in> set xs. c \<notin> set s) \<Longrightarrow> split_on_char c (join_with [c] xs) = xs"
proof (induction "[c]" xs rule: join_with.induct)
  case (2 x)
  then show ?case by (simp add: split_on_char_no_sep)
next
  case (3 x y zs)
  then show ?case by (simp add: split_on_char_append_sep)
qed simp

lemma split_on_char_no_char: "w \<in> set (split_on_char c s) \<Longrightarrow> c \<notin> set w"
proof
  assume w: "w \<in> set (split_on_char c s)" and "c \<in> set w"
  then obtain u v where "w = u @ [c] @ v" by (auto simp: in_set_conv_decomp)
  then have "sublist [c] w" using sublist_appendI [of "[c]" u v] by simp
  with w js_split_no_separator [of "[c]" w s] show False by (simp add: js_split_char)
qed

lemma split_on_char_append:
  "split_on_char c (w @ c # v) = split_on_char c w @ split_on_char c v"
proof (induction w)
  case (Cons x w)
  have "split_on_char c w \<noteq> []" by (rule split_on_char_not_Nil)
  with Cons show ?case by (cases "split_on_char c w") (simp_all add: Let_def)
qed simp

end
