(* ===== verification/Tool_Flags.thy ===== *)
theory Tool_Flags
  imports JS_Strings
begin

text \<open>
  The flag helpers of \<^verbatim>\<open>src/lib/utilities.ts\<close>: \<open>createFlagsForTool\<close>
  (line 62) prefixes every flag with a dash, \<open>splitFlagAndValue\<close>
  (lines 69--70) splits every entry of an untyped array at single spaces and flattens
  the pieces. The entries of \<open>splitFlagAndValue\<close>'s \<open>any[]\<close> argument are
  JavaScript values: a string has a \<open>split\<close> method, the other values the tool can
  receive (numbers, booleans, \<open>null\<close>, \<open>undefined\<close>, arrays, plain objects) do
  not, and calling it on them throws a \<open>TypeError\<close> that stops the \<open>map\<close>.
  Objects that bring a \<open>split\<close> method of their own (a \<open>String\<close> wrapper, a
  user object) are outside the model: the command line the tool reads yields
  strings, and such an object could return anything from \<open>split\<close>.
  The lemmas give the result of both helpers on every input, the error case, the
  shape of the tokens (no space inside, one more token per entry than the entry has
  spaces) and the round trip of the dash prefix.
\<close>

datatype flag_value = FlagStr js_string | FlagNonString

definition createFlagsForTool :: "js_string list \<Rightarrow> js_string list" where
  "createFlagsForTool flags = map (\<lambda>flag. CHR ''-'' # flag) flags"

text \<open>
  \<^verbatim>\<open>flags.map(flag => flag.split(' '))\<close>: the callback runs on the entries in
  order; the first entry without a \<open>split\<close> method raises.
\<close>

fun split_each_flag :: "flag_value list \<Rightarrow> js_error + js_string list list" where
  "split_each_flag [] = Inr []"
| "split_each_flag (FlagStr flag # flags) =
     (case split_each_flag flags of
        Inl e \<Rightarrow> Inl e
      | Inr rest \<Rightarrow> Inr (js_split flag [space] # rest))"
| "split_each_flag (FlagNonString # flags) = Inl (TypeError ''flag.split is not a function'')"

text \<open>\<^verbatim>\<open>[].concat(...pieces)\<close> appends the piece arrays in order.\<close>

definition splitFlagAndValue :: "flag_value list \<Rightarrow> js_error + js_string list" where
  "splitFlagAndValue flags =
     (case split_each_flag flags of
        Inl e \<Rightarrow> Inl e
      | Inr pieces \<Rightarrow> Inr (concat pieces))"

subsection \<open>Lemmas\<close>

lemma split_each_flag_strings:
  "split_each_flag (map FlagStr fs) = Inr (map (split_on_char space) fs)"
  by (induction fs) (simp_all add: js_split_char)

lemma split_each_flag_error:
  "(\<exists>e. split_each_flag flags = Inl e) \<longleftrightarrow> FlagNonString \<in> set flags"
proof (induction flags rule: split_each_flag.induct)
  case (2 flag flags)
  then show ?case by (cases "split_each_flag flags") auto
qed simp_all

lemma splitFlagAndValue_strings_list:
  "splitFlagAndValue (map FlagStr fs) = Inr (concat (map (split_on_char space) fs))"
  by (simp add: splitFlagAndValue_def split_each_flag_strings)

subsection \<open>Properties\<close>

text \<open>
  C21. On an array of strings, \<open>splitFlagAndValue\<close> succeeds and returns the
  pieces of every entry between single spaces, entry after entry, each piece free of
  spaces.
\<close>

theorem splitFlagAndValue_strings:
  "splitFlagAndValue (map FlagStr fs) = Inr ts \<longleftrightarrow>
     ts = concat (map (split_on_char space) fs)"
  by (auto simp add: splitFlagAndValue_strings_list)

text \<open>
  C22. \<open>splitFlagAndValue\<close> throws exactly when some entry is not a string.
\<close>

theorem splitFlagAndValue_error:
  "(\<exists>e. splitFlagAndValue flags = Inl e) \<longleftrightarrow> FlagNonString \<in> set flags"
  using split_each_flag_error [of flags]
  by (auto simp add: splitFlagAndValue_def split: sum.splits)

text \<open>
  C23. No token that \<open>splitFlagAndValue\<close> returns contains a space.
\<close>

theorem splitFlagAndValue_tokens:
  assumes "splitFlagAndValue flags = Inr ts" and "t \<in> set ts"
  shows "space \<notin> set t"
proof -
  from assms(1) have "\<not> (\<exists>e. splitFlagAndValue flags = Inl e)" by simp
  then have "FlagNonString \<notin> set flags"
    using split_each_flag_error [of flags] by (auto simp add: splitFlagAndValue_def split: sum.splits)
  then have "\<forall>v \<in> set flags. \<exists>f. v = FlagStr f"
    by (metis flag_value.exhaust)
  then obtain fs where "flags = map FlagStr fs"
    by (induction flags) (auto, metis list.simps(9))
  with assms show ?thesis
    by (auto simp add: splitFlagAndValue_strings_list split_on_char_no_char)
qed

lemma splitFlagAndValue_tokens_witness:
  "splitFlagAndValue [FlagStr ''width 512''] = Inr [''width'', ''512''] \<and>
   ''512'' \<in> set [''width'', ''512''] \<and> space \<notin> set ''512''"
proof -
  have r: "splitFlagAndValue [FlagStr ''width 512''] = Inr [''width'', ''512'']"
    using splitFlagAndValue_strings_list [of "[''width 512'']"] by simp
  show ?thesis using splitFlagAndValue_tokens [OF r, of "''512''"] r by simp
qed

text \<open>
  C24. An entry with \<open>k\<close> spaces gives \<open>k + 1\<close> tokens, so the number of
  tokens is the number of entries plus the number of spaces in them.
\<close>

theorem splitFlagAndValue_length:
  "splitFlagAndValue (map FlagStr fs) = Inr ts \<Longrightarrow>
     length ts = (\<Sum>f\<leftarrow>fs. count_list f space + 1)"
  by (auto simp add: splitFlagAndValue_strings_list length_concat length_split_on_char comp_def)

lemma splitFlagAndValue_length_witness:
  "splitFlagAndValue (map FlagStr [''width 512'', ''verbose'']) =
     Inr [''width'', ''512'', ''verbose''] \<and>
   length [''width'', ''512'', ''verbose''] =
     (\<Sum>f\<leftarrow>[''width 512'', ''verbose'']. count_list f space + 1)"
proof -
  have r: "splitFlagAndValue (map FlagStr [''width 512'', ''verbose'']) =
      Inr [''width'', ''512'', ''verbose'']"
    by (simp only: splitFlagAndValue_strings_list) simp
  show ?thesis using splitFlagAndValue_length [OF r] r by simp
qed

text \<open>
  C25. Joining the tokens of one string entry with single spaces gives the entry
  back.
\<close>

theorem splitFlagAndValue_roundtrip:
  "splitFlagAndValue [FlagStr f] = Inr ts \<Longrightarrow> join_with [space] ts = f"
  using js_split_join [of "[space]" f]
  by (simp add: splitFlagAndValue_strings_list [of "[f]", simplified] js_split_char)

lemma splitFlagAndValue_roundtrip_witness:
  "splitFlagAndValue [FlagStr ''width 512''] = Inr [''width'', ''512''] \<and>
   join_with [space] [''width'', ''512''] = ''width 512''"
proof -
  have r: "splitFlagAndValue [FlagStr ''width 512''] = Inr [''width'', ''512'']"
    using splitFlagAndValue_strings_list [of "[''width 512'']"] by simp
  show ?thesis using splitFlagAndValue_roundtrip [OF r] r by simp
qed

text \<open>
  The example of the specification, what it leaves open (two adjacent spaces
  give an empty token between them) and the error of a non-string entry.
\<close>

lemma splitFlagAndValue_examples:
  "splitFlagAndValue [FlagStr ''width 512'', FlagStr ''verbose''] =
     Inr [''width'', ''512'', ''verbose''] \<and>
   splitFlagAndValue [FlagStr ''quality  high''] = Inr [''quality'', [], ''high''] \<and>
   splitFlagAndValue [FlagStr ''verbose'', FlagNonString] =
     Inl (TypeError ''flag.split is not a function'')"
  by (simp add: splitFlagAndValue_def js_split_char)

text \<open>
  C26. \<open>createFlagsForTool\<close> keeps the number and the order of the flags and puts
  one dash in front of each.
\<close>

theorem createFlagsForTool_nth:
  "length (createFlagsForTool fs) = length fs \<and>
   (\<forall>i < length fs. createFlagsForTool fs ! i = CHR ''-'' # fs ! i)"
  by (simp add: createFlagsForTool_def)

lemma createFlagsForTool_nth_witness:
  "length (createFlagsForTool [''v'', ''o'']) = 2 \<and> createFlagsForTool [''v'', ''o''] ! 1 = ''-o''"
  using createFlagsForTool_nth [of "[''v'', ''o'']"] by simp

end
