(* ===== verification/Node_Path.thy ===== *)
theory Node_Path
  imports JS_Strings
begin

text \<open>
  The functions of Node's \<^verbatim>\<open>path\<close> module that \<^verbatim>\<open>src/lib/utilities.ts\<close>
  imports (\<open>parse\<close>, \<open>basename\<close>, \<open>join\<close>, line 3), in their POSIX variant,
  modelled from Node's implementation (they are not code of the repository):
  \<^item> \<open>node_path_parse\<close>: \<open>path.posix.parse\<close>, whose loop scans the path from its
    last character down to the first one after the root (\<open>parse_scan\<close>, with the
    loop's variables in the record \<open>parse_vars\<close>), finds the last component, its
    last dot and the kind of character before that dot;
  \<^item> \<open>node_basename\<close>: \<open>path.posix.basename(path, suffix)\<close>, the plain scan
    (\<open>basename_scan\<close>) and the scan that also matches the suffix from its end
    (\<open>basename_suffix_scan\<close>);
  \<^item> \<open>node_normalize\<close>, \<open>node_join\<close>: \<open>path.posix.normalize\<close> and
    \<open>path.posix.join\<close>, with the segments of the path resolved against a stack
    (\<open>normalize_segments\<close>): empty and \<open>.\<close> segments vanish, \<open>..\<close> removes the
    segment before it, or stays when nothing can be removed and the path is relative.
  A loop \<^verbatim>\<open>for (i = path.length - 1; i >= start; --i)\<close> visits the pairs
  \<open>(i, path[i])\<close> of \<open>rev (enumerate start (drop start path))\<close>, in that order; a
  \<^verbatim>\<open>break\<close> returns the variables as they are.
  The lemmas read each scan abstractly: the base name is the last component
  (\<open>last_component\<close>), the extension runs from the last dot of that component
  (\<open>ext_of\<close>), and the suffix scan strips a suffix of the component. The
  properties at the end show that \<open>parse\<close> and \<open>basename\<close> agree on the base
  name and that a parsed path's base is its name followed by its extension.
\<close>

subsection \<open>path.parse\<close>

record parsed_path =
  p_root :: js_string
  p_dir :: js_string
  p_base :: js_string
  p_ext :: js_string
  p_name :: js_string

record parse_vars =
  start_dot :: int
  start_part :: nat
  end_pos :: int
  matched_slash :: bool
  pre_dot_state :: int

definition parse_vars_init :: parse_vars where
  "parse_vars_init =
     \<lparr>start_dot = -1, start_part = 0, end_pos = -1, matched_slash = True, pre_dot_state = 0\<rparr>"

text \<open>The body of the loop for a character other than a slash.\<close>

definition parse_char_step :: "parse_vars \<Rightarrow> nat \<Rightarrow> char \<Rightarrow> parse_vars" where
  "parse_char_step st i code =
     (let st1 = (if end_pos st = -1 then st\<lparr>matched_slash := False, end_pos := int i + 1\<rparr> else st)
      in if code = dot then
           (if start_dot st1 = -1 then st1\<lparr>start_dot := int i\<rparr>
            else if pre_dot_state st1 \<noteq> 1 then st1\<lparr>pre_dot_state := 1\<rparr>
            else st1)
         else if start_dot st1 \<noteq> -1 then st1\<lparr>pre_dot_state := -1\<rparr>
         else st1)"

fun parse_scan :: "parse_vars \<Rightarrow> (nat \<times> char) list \<Rightarrow> parse_vars" where
  "parse_scan st [] = st"
| "parse_scan st ((i, code) # rest) =
     (if code = slash then
        (if \<not> matched_slash st then st\<lparr>start_part := i + 1\<rparr> else parse_scan st rest)
      else parse_scan (parse_char_step st i code) rest)"

text \<open>The code after the loop: the fields of the result from the loop's variables.\<close>

definition parse_result :: "js_string \<Rightarrow> bool \<Rightarrow> parse_vars \<Rightarrow> parsed_path" where
  "parse_result path is_absolute st =
     (let ret0 = \<lparr>p_root = if is_absolute then ''/'' else [], p_dir = [], p_base = [],
                  p_ext = [], p_name = []\<rparr>;
          ret1 =
            (if end_pos st \<noteq> -1 then
               let start' = (if start_part st = 0 \<and> is_absolute then 1 else start_part st)
               in if start_dot st = -1 \<or> pre_dot_state st = 0 \<or>
                     (pre_dot_state st = 1 \<and> start_dot st = end_pos st - 1 \<and>
                      start_dot st = int (start_part st) + 1)
                  then ret0\<lparr>p_base := js_slice path start' (nat (end_pos st)),
                            p_name := js_slice path start' (nat (end_pos st))\<rparr>
                  else ret0\<lparr>p_name := js_slice path start' (nat (start_dot st)),
                            p_base := js_slice path start' (nat (end_pos st)),
                            p_ext := js_slice path (nat (start_dot st)) (nat (end_pos st))\<rparr>
             else ret0)
      in if 0 < start_part st then ret1\<lparr>p_dir := js_slice path 0 (start_part st - 1)\<rparr>
         else if is_absolute then ret1\<lparr>p_dir := ''/''\<rparr>
         else ret1)"

definition node_path_parse :: "js_string \<Rightarrow> parsed_path" where
  "node_path_parse path =
     (if path = [] then \<lparr>p_root = [], p_dir = [], p_base = [], p_ext = [], p_name = []\<rparr>
      else
        let is_absolute = (hd path = slash);
            start = (if is_absolute then 1 else 0)
        in parse_result path is_absolute
             (parse_scan parse_vars_init (rev (enumerate start (drop start path)))))"

subsection \<open>path.basename\<close>

record basename_vars =
  bn_start :: nat
  bn_end :: int
  bn_matched :: bool
  ext_idx :: int
  first_non_slash_end :: int

definition basename_vars_init :: basename_vars where
  "basename_vars_init =
     \<lparr>bn_start = 0, bn_end = -1, bn_matched = True, ext_idx = -1, first_non_slash_end = -1\<rparr>"

fun basename_scan :: "basename_vars \<Rightarrow> (nat \<times> char) list \<Rightarrow> basename_vars" where
  "basename_scan st [] = st"
| "basename_scan st ((i, code) # rest) =
     (if code = slash then
        (if \<not> bn_matched st then st\<lparr>bn_start := i + 1\<rparr> else basename_scan st rest)
      else if bn_end st = -1 then basename_scan (st\<lparr>bn_matched := False, bn_end := int i + 1\<rparr>) rest
      else basename_scan st rest)"

text \<open>The body of the suffix-matching loop for a character other than a slash.\<close>

definition suffix_char_step :: "js_string \<Rightarrow> basename_vars \<Rightarrow> nat \<Rightarrow> char \<Rightarrow> basename_vars" where
  "suffix_char_step sfx st i code =
     (let st1 = (if first_non_slash_end st = -1
                 then st\<lparr>bn_matched := False, first_non_slash_end := int i + 1\<rparr> else st)
      in if 0 \<le> ext_idx st1 then
           (if code = sfx ! nat (ext_idx st1) then
              (if ext_idx st1 - 1 = -1 then st1\<lparr>ext_idx := -1, bn_end := int i\<rparr>
               else st1\<lparr>ext_idx := ext_idx st1 - 1\<rparr>)
            else st1\<lparr>ext_idx := -1, bn_end := first_non_slash_end st1\<rparr>)
         else st1)"

fun basename_suffix_scan :: "js_string \<Rightarrow> basename_vars \<Rightarrow> (nat \<times> char) list \<Rightarrow> basename_vars" where
  "basename_suffix_scan sfx st [] = st"
| "basename_suffix_scan sfx st ((i, code) # rest) =
     (if code = slash then
        (if \<not> bn_matched st then st\<lparr>bn_start := i + 1\<rparr> else basename_suffix_scan sfx st rest)
      else basename_suffix_scan sfx (suffix_char_step sfx st i code) rest)"

definition node_basename :: "js_string \<Rightarrow> js_string option \<Rightarrow> js_string" where
  "node_basename path suffix_arg =
     (case suffix_arg of
        Some sfx \<Rightarrow>
          if 0 < length sfx \<and> length sfx \<le> length path then
            (if sfx = path then []
             else
               let st = basename_suffix_scan sfx
                          (basename_vars_init\<lparr>ext_idx := int (length sfx) - 1\<rparr>)
                          (rev (enumerate 0 path));
                   e = (if int (bn_start st) = bn_end st then first_non_slash_end st
                        else if bn_end st = -1 then int (length path)
                        else bn_end st)
               in js_slice path (bn_start st) (nat e))
          else
            (let st = basename_scan basename_vars_init (rev (enumerate 0 path))
             in if bn_end st = -1 then [] else js_slice path (bn_start st) (nat (bn_end st)))
      | None \<Rightarrow>
          (let st = basename_scan basename_vars_init (rev (enumerate 0 path))
           in if bn_end st = -1 then [] else js_slice path (bn_start st) (nat (bn_end st))))"

subsection \<open>path.normalize and path.join\<close>

fun normalize_segments :: "bool \<Rightarrow> js_string list \<Rightarrow> js_string list \<Rightarrow> js_string list" where
  "normalize_segments allow_above_root acc [] = acc"
| "normalize_segments allow_above_root acc (seg # segs) =
     (if seg = [] \<or> seg = ''.'' then normalize_segments allow_above_root acc segs
      else if seg = ''..'' then
        (if acc \<noteq> [] \<and> last acc \<noteq> ''..'' then normalize_segments allow_above_root (butlast acc) segs
         else if allow_above_root then normalize_segments allow_above_root (acc @ [''..'']) segs
         else normalize_segments allow_above_root acc segs)
      else normalize_segments allow_above_root (acc @ [seg]) segs)"

definition node_normalize :: "js_string \<Rightarrow> js_string" where
  "node_normalize path =
     (if path = [] then ''.''
      else
        let is_absolute = (hd path = slash);
            trailing = (last path = slash);
            p = join_with ''/'' (normalize_segments (\<not> is_absolute) [] (js_split path ''/''))
        in if p = [] then (if is_absolute then ''/'' else if trailing then ''./'' else ''.'')
           else (if is_absolute then ''/'' else []) @ p @ (if trailing then ''/'' else []))"

definition node_join :: "js_string list \<Rightarrow> js_string" where
  "node_join args =
     (let parts = filter (\<lambda>a. a \<noteq> []) args
      in if parts = [] then ''.'' else node_normalize (join_with ''/'' parts))"

subsection \<open>Abstract reading of a path\<close>

text \<open>
  A POSIX path read as its last component (the maximal run of non-slash characters
  before the trailing slashes), the part before it, and the trailing slashes;
  \<open>last_dot\<close> finds the last dot of a string, \<open>ext_of\<close> is the extension that
  \<open>path.parse\<close> reports, and \<open>parse_block_vars\<close> is the state of the parse loop
  after it has crossed the last component. \<open>plain_segment\<close> is a directory or file
  name that normalisation keeps as it is.
\<close>

fun last_dot :: "js_string \<Rightarrow> nat option" where
  "last_dot [] = None"
| "last_dot (c # cs) =
     (case last_dot cs of Some d \<Rightarrow> Some (Suc d) | None \<Rightarrow> if c = dot then Some 0 else None)"

definition last_component :: "js_string \<Rightarrow> js_string" where
  "last_component p = rev (takeWhile (\<lambda>c. c \<noteq> slash) (dropWhile (\<lambda>c. c = slash) (rev p)))"

definition component_prefix :: "js_string \<Rightarrow> js_string" where
  "component_prefix p = rev (dropWhile (\<lambda>c. c \<noteq> slash) (dropWhile (\<lambda>c. c = slash) (rev p)))"

definition trailing_slashes :: "js_string \<Rightarrow> nat" where
  "trailing_slashes p = length (takeWhile (\<lambda>c. c = slash) (rev p))"

definition ext_of :: "js_string \<Rightarrow> js_string" where
  "ext_of p =
     (let b = last_component p
      in case last_dot b of
           None \<Rightarrow> []
         | Some d \<Rightarrow> if d = 0 \<or> (b = ''..'' \<and> component_prefix p \<noteq> ''/'') then [] else drop d b)"

definition parse_block_vars :: "nat \<Rightarrow> js_string \<Rightarrow> parse_vars" where
  "parse_block_vars k b =
     parse_vars_init\<lparr>start_dot := (case last_dot b of None \<Rightarrow> -1 | Some d \<Rightarrow> int (k + d)),
       end_pos := int (k + length b), matched_slash := False,
       pre_dot_state := (case last_dot b of None \<Rightarrow> 0 | Some d \<Rightarrow>
                           if d = 0 then 0 else if hd b = dot then 1 else -1)\<rparr>"

definition plain_segment :: "js_string \<Rightarrow> bool" where
  "plain_segment s \<longleftrightarrow> s \<noteq> [] \<and> slash \<notin> set s \<and> s \<noteq> ''.'' \<and> s \<noteq> ''..''"

text \<open>
  A normalised absolute path: a slash, then plain segments separated by single
  slashes, without a trailing slash (or the root alone).
\<close>

definition abs_normal :: "js_string \<Rightarrow> bool" where
  "abs_normal d \<longleftrightarrow>
     d \<noteq> [] \<and> hd d = slash \<and>
     (d = ''/'' \<or> (last d \<noteq> slash \<and> (\<forall>s \<in> set (js_split (tl d) ''/''). plain_segment s)))"

subsection \<open>The path as prefix, last component and trailing slashes\<close>

lemma path_decomposition:
  "p = component_prefix p @ last_component p @ replicate (trailing_slashes p) slash"
proof -
  let ?R = "rev p"
  let ?D = "dropWhile (\<lambda>c. c = slash) ?R"
  have T: "takeWhile (\<lambda>c. c = slash) ?R = replicate (trailing_slashes p) slash"
    unfolding trailing_slashes_def
    by (rule replicate_length_same [symmetric]) (auto dest: set_takeWhileD)
  have "p = rev ?D @ rev (takeWhile (\<lambda>c. c = slash) ?R)"
    by (metis rev_append rev_rev_ident takeWhile_dropWhile_id)
  also have "rev ?D = component_prefix p @ last_component p"
    unfolding component_prefix_def last_component_def
    by (metis rev_append takeWhile_dropWhile_id)
  finally show ?thesis using T by simp
qed

lemma last_component_no_slash: "slash \<notin> set (last_component p)"
  by (auto simp: last_component_def dest: set_takeWhileD)

lemma component_prefix_ends_slash:
  "component_prefix p = [] \<or> last (component_prefix p) = slash"
proof -
  let ?E = "dropWhile (\<lambda>c. c \<noteq> slash) (dropWhile (\<lambda>c. c = slash) (rev p))"
  have "?E = [] \<or> hd ?E = slash"
    using hd_dropWhile [of "\<lambda>c. c \<noteq> slash"] by blast
  moreover have "component_prefix p = rev ?E" by (simp add: component_prefix_def)
  ultimately show ?thesis by (auto simp: last_rev)
qed

lemma last_component_Nil:
  assumes "last_component p = []"
  shows "component_prefix p = []"
proof -
  let ?D = "dropWhile (\<lambda>c. c = slash) (rev p)"
  from assms have tw: "takeWhile (\<lambda>c. c \<noteq> slash) ?D = []" by (simp add: last_component_def)
  have "?D = []"
  proof (rule ccontr)
    assume ne: "?D \<noteq> []"
    then have "hd ?D \<noteq> slash" using hd_dropWhile [of "\<lambda>c. c = slash"] by blast
    with tw ne show False by (cases ?D) auto
  qed
  then show ?thesis unfolding component_prefix_def by (simp only: dropWhile.simps rev.simps)
qed

lemma trailing_slashes_set: "set (replicate (trailing_slashes p) slash) \<subseteq> {slash}"
  by auto

subsection \<open>The last dot\<close>

lemma last_dot_None: "last_dot b = None \<longleftrightarrow> dot \<notin> set b"
  by (induction b) (auto split: option.splits)

lemma last_dot_Some:
  "last_dot b = Some d \<Longrightarrow> d < length b \<and> b ! d = dot \<and> dot \<notin> set (drop (Suc d) b)"
proof (induction b arbitrary: d)
  case (Cons c cs)
  then show ?case
    using last_dot_None [of cs] by (cases "last_dot cs") (auto split: if_splits)
qed simp

subsection \<open>Scanning for parse\<close>

lemma parse_scan_slashes:
  "\<forall>x \<in> set xs. snd x = slash \<Longrightarrow> matched_slash st \<Longrightarrow> parse_scan st (xs @ rest) = parse_scan st rest"
  by (induction xs) auto

lemma parse_scan_block:
  "\<forall>x \<in> set xs. snd x \<noteq> slash \<Longrightarrow>
     parse_scan st (xs @ rest) = parse_scan (foldl (\<lambda>s (i, c). parse_char_step s i c) st xs) rest"
  by (induction xs arbitrary: st) auto

lemma parse_block_effect:
  "b \<noteq> [] \<Longrightarrow> foldl (\<lambda>s (i, c). parse_char_step s i c) parse_vars_init (rev (enumerate k b)) =
     parse_block_vars k b"
proof (induction b arbitrary: k)
  case Nil
  then show ?case by simp
next
  case (Cons c cs)
  let ?F = "\<lambda>s (i, c). parse_char_step s i c"
  show ?case
  proof (cases "cs = []")
    case True
    then show ?thesis
      by (simp add: parse_block_vars_def parse_char_step_def parse_vars_init_def)
  next
    case False
    have "foldl ?F parse_vars_init (rev (enumerate k (c # cs))) =
        parse_char_step (foldl ?F parse_vars_init (rev (enumerate (Suc k) cs))) k c"
      by simp
    also have "\<dots> = parse_char_step (parse_block_vars (Suc k) cs) k c"
      using Cons.IH [OF False] by simp
    also have "\<dots> = parse_block_vars k (c # cs)"
      using False
      by (cases "last_dot cs") (auto simp: parse_block_vars_def parse_char_step_def parse_vars_init_def)
    finally show ?thesis .
  qed
qed

lemma enumerate_replicate_snd:
  "(i, c) \<in> set (enumerate k (replicate t a)) \<Longrightarrow> c = a"
  by (auto simp add: enumerate_replicate_eq)

lemma enumerate_snd_in_set:
  assumes "(i, c) \<in> set (enumerate k b)"
  shows "c \<in> set b"
proof -
  from assms have "i - k < length b" "b ! (i - k) = c"
    by (auto simp: in_set_enumerate_eq)
  then show ?thesis by (metis nth_mem)
qed

lemma parse_scan_shape:
  assumes "slash \<notin> set b" "b \<noteq> []"
  shows "parse_scan parse_vars_init
           (rev (enumerate (k + length b) (replicate t slash)) @ rev (enumerate k b) @ rest) =
         parse_scan (parse_block_vars k b) rest"
proof -
  have "parse_scan parse_vars_init
          (rev (enumerate (k + length b) (replicate t slash)) @ rev (enumerate k b) @ rest) =
        parse_scan parse_vars_init (rev (enumerate k b) @ rest)"
    by (rule parse_scan_slashes) (auto simp: parse_vars_init_def dest: enumerate_replicate_snd)
  also have "\<dots> = parse_scan (foldl (\<lambda>s (i, c). parse_char_step s i c) parse_vars_init
                                   (rev (enumerate k b))) rest"
    by (rule parse_scan_block) (use assms(1) in \<open>auto dest: enumerate_snd_in_set\<close>)
  also have "\<dots> = parse_scan (parse_block_vars k b) rest"
    by (simp add: parse_block_effect [OF assms(2)])
  finally show ?thesis .
qed

lemma parse_scan_component:
  assumes p: "p = u @ b @ replicate t slash" and b: "b \<noteq> []" "slash \<notin> set b"
    and u: "u = [] \<or> last u = slash"
  defines "s \<equiv> (if hd p = slash then 1 else 0)"
  shows "parse_scan parse_vars_init (rev (enumerate s (drop s p))) =
         (parse_block_vars (length u) b)\<lparr>start_part := (if length u \<le> 1 then 0 else length u)\<rparr>"
proof -
  have hb: "hd b \<noteq> slash" using b by (cases b) auto
  have shape: "parse_scan parse_vars_init
      (rev (enumerate (k + length b) (replicate t slash)) @ rev (enumerate k b) @ rest) =
      parse_scan (parse_block_vars k b) rest" for k rest
    by (rule parse_scan_shape [OF b(2,1)])
  have sp0: "(parse_block_vars k b)\<lparr>start_part := 0\<rparr> = parse_block_vars k b" for k
    by (simp add: parse_block_vars_def parse_vars_init_def)
  show ?thesis
  proof (cases "u = []")
    case True
    then have s0: "s = 0" using p hb b by (simp add: s_def)
    have "rev (enumerate s (drop s p)) =
        rev (enumerate (0 + length b) (replicate t slash)) @ rev (enumerate 0 b) @ []"
      by (simp add: s0 p True rev_enumerate_append)
    then show ?thesis using shape [of 0 "[]"] True sp0 [of 0] by simp
  next
    case False
    with u have lu: "last u = slash" by simp
    define u' where "u' = butlast u"
    have uu: "u = u' @ [slash]" using append_butlast_last_id [OF False] lu by (simp add: u'_def)
    show ?thesis
    proof (cases "u' = []")
      case True
      then have s1: "s = 1" using p uu by (simp add: s_def)
      have "rev (enumerate s (drop s p)) =
          rev (enumerate (1 + length b) (replicate t slash)) @ rev (enumerate 1 b) @ []"
        by (simp add: s1 p uu True rev_enumerate_append)
      then show ?thesis using shape [of 1 "[]"] True uu sp0 [of 1] by simp
    next
      case False
      have sle: "s \<le> length u'" using False by (cases u') (auto simp: s_def)
      have "drop s p = drop s u' @ [slash] @ b @ replicate t slash"
        using sle by (simp add: p uu)
      then have "rev (enumerate s (drop s p)) =
          rev (enumerate (length u + length b) (replicate t slash)) @ rev (enumerate (length u) b) @
          ((length u', slash) # rev (enumerate s (drop s u')))"
        using sle by (simp add: uu rev_enumerate_append)
      moreover have "\<not> length u \<le> 1" using False uu by (cases u') auto
      ultimately show ?thesis
        using shape [of "length u" "(length u', slash) # rev (enumerate s (drop s u'))"] uu
        by (simp add: parse_block_vars_def parse_vars_init_def)
    qed
  qed
qed

lemma node_path_parse_scan:
  "p \<noteq> [] \<Longrightarrow> node_path_parse p =
     parse_result p (hd p = slash)
       (parse_scan parse_vars_init
          (rev (enumerate (if hd p = slash then 1 else 0) (drop (if hd p = slash then 1 else 0) p))))"
  by (simp add: node_path_parse_def)

lemma parse_result_ext:
  "p_ext (parse_result p a st) =
     (if end_pos st \<noteq> -1 \<and> \<not> (start_dot st = -1 \<or> pre_dot_state st = 0 \<or>
            (pre_dot_state st = 1 \<and> start_dot st = end_pos st - 1 \<and>
             start_dot st = int (start_part st) + 1))
      then js_slice p (nat (start_dot st)) (nat (end_pos st)) else [])"
  by (simp add: parse_result_def Let_def)

lemma js_slice_component_drop:
  "d \<le> length b \<Longrightarrow> js_slice (u @ b @ w) (length u + d) (length u + length b) = drop d b"
  by (simp add: js_slice_def)

lemma two_dots: "length b = 2 \<Longrightarrow> hd b = dot \<Longrightarrow> b ! 1 = dot \<Longrightarrow> b = ''..''"
  by (cases b; cases "tl b") auto

lemma parse_ext_component:
  assumes p: "p = u @ b @ replicate t slash" and b: "b \<noteq> []" "slash \<notin> set b"
    and u: "u = [] \<or> last u = slash"
  shows "p_ext (node_path_parse p) =
     (case last_dot b of
        None \<Rightarrow> []
      | Some d \<Rightarrow> if d = 0 \<or> (b = ''..'' \<and> u \<noteq> ''/'') then [] else drop d b)"
proof -
  have pne: "p \<noteq> []" using p b by simp
  define sp where "sp = (if length u \<le> 1 then 0 else length u)"
  have st: "p_ext (node_path_parse p) =
      p_ext (parse_result p (hd p = slash) ((parse_block_vars (length u) b)\<lparr>start_part := sp\<rparr>))"
    using parse_scan_component [OF p b u] by (simp add: node_path_parse_scan [OF pne] sp_def)
  have u01: "length u \<le> 1 \<Longrightarrow> u = [] \<or> u = ''/''"
    using u by (cases u) auto
  show ?thesis
  proof (cases "last_dot b")
    case None
    then show ?thesis by (simp add: st parse_result_ext parse_block_vars_def)
  next
    case (Some d)
    note D = last_dot_Some [OF Some]
    show ?thesis
    proof (cases "d = 0")
      case True
      with Some show ?thesis by (simp add: st parse_result_ext parse_block_vars_def)
    next
      case False
      have cond: "(hd b = dot \<and> d = length b - 1 \<and> length u + d = sp + 1) \<longleftrightarrow>
          (b = ''..'' \<and> u \<noteq> ''/'')"
      proof
        assume c: "hd b = dot \<and> d = length b - 1 \<and> length u + d = sp + 1"
        have d1: "d = 1 \<and> u \<noteq> ''/''"
          using c False u01 by (auto simp: sp_def split: if_splits)
        then have "length b = 2" using c D by linarith
        moreover have "b ! 1 = dot" using c d1 D by simp
        ultimately show "b = ''..'' \<and> u \<noteq> ''/''" using two_dots [of b] c d1 by simp
      next
        assume c: "b = ''..'' \<and> u \<noteq> ''/''"
        then have "d = 1" using Some by simp
        moreover have "length u + 1 = sp + 1" using c u01 by (auto simp: sp_def)
        ultimately show "hd b = dot \<and> d = length b - 1 \<and> length u + d = sp + 1"
          using c by simp
      qed
      let ?st = "(parse_block_vars (length u) b)\<lparr>start_part := sp\<rparr>"
      have f: "start_dot ?st = int (length u + d)" "end_pos ?st = int (length u + length b)"
          "pre_dot_state ?st = (if hd b = dot then 1 else -1)" "start_part ?st = sp"
        using Some False by (simp_all add: parse_block_vars_def parse_vars_init_def)
      have c2: "(pre_dot_state ?st = 1 \<and> start_dot ?st = end_pos ?st - 1 \<and>
            start_dot ?st = int (start_part ?st) + 1) \<longleftrightarrow>
          (hd b = dot \<and> d = length b - 1 \<and> length u + d = sp + 1)"
        using f D by auto
      have "p_ext (node_path_parse p) =
          (if hd b = dot \<and> d = length b - 1 \<and> length u + d = sp + 1 then []
           else js_slice p (length u + d) (length u + length b))"
        unfolding st parse_result_ext c2 [symmetric] by (simp add: f del: of_nat_add)
      also have "\<dots> = (if b = ''..'' \<and> u \<noteq> ''/'' then [] else drop d b)"
        using cond D by (simp add: p js_slice_component_drop)
      finally show ?thesis using Some False by simp
    qed
  qed
qed

lemma parse_ext_all_slashes:
  "p_ext (node_path_parse (replicate t slash)) = []"
proof (cases t)
  case (Suc t')
  have "parse_scan parse_vars_init (rev (enumerate 1 (replicate t' slash)) @ []) =
      parse_scan parse_vars_init []"
    by (rule parse_scan_slashes) (auto simp: parse_vars_init_def dest: enumerate_replicate_snd)
  then show ?thesis
    using Suc by (simp add: node_path_parse_def parse_result_ext parse_vars_init_def)
qed (simp add: node_path_parse_def)

lemma parse_ext_refines: "p_ext (node_path_parse p) = ext_of p"
proof (cases "last_component p = []")
  case True
  then have "p = replicate (trailing_slashes p) slash"
    using path_decomposition [of p] last_component_Nil [OF True] by simp
  then show ?thesis
    using parse_ext_all_slashes [of "trailing_slashes p"] True by (simp add: ext_of_def)
next
  case False
  show ?thesis
    using parse_ext_component [OF path_decomposition False last_component_no_slash
                                  component_prefix_ends_slash]
    by (simp add: ext_of_def Let_def)
qed

subsection \<open>Scanning for basename\<close>

lemma basename_scan_slashes:
  "\<forall>x \<in> set xs. snd x = slash \<Longrightarrow> bn_matched st \<Longrightarrow> basename_scan st (xs @ rest) = basename_scan st rest"
  by (induction xs) auto

lemma basename_scan_block:
  "\<forall>x \<in> set xs. snd x \<noteq> slash \<Longrightarrow>
     basename_scan st (xs @ rest) =
     basename_scan (foldl (\<lambda>s (i, c). if bn_end s = -1 then s\<lparr>bn_matched := False, bn_end := int i + 1\<rparr> else s)
                      st xs) rest"
  by (induction xs arbitrary: st) auto

lemma basename_block_effect:
  "b \<noteq> [] \<Longrightarrow> bn_end st = -1 \<Longrightarrow>
     foldl (\<lambda>s (i, c). if bn_end s = -1 then s\<lparr>bn_matched := False, bn_end := int i + 1\<rparr> else s)
       st (rev (enumerate k b)) =
     st\<lparr>bn_matched := False, bn_end := int (k + length b)\<rparr>"
proof (induction b arbitrary: k)
  case (Cons c cs)
  then show ?case by (cases "cs = []") simp_all
qed simp

lemma basename_suffix_scan_slashes:
  "\<forall>x \<in> set xs. snd x = slash \<Longrightarrow> bn_matched st \<Longrightarrow>
     basename_suffix_scan sfx st (xs @ rest) = basename_suffix_scan sfx st rest"
  by (induction xs) auto

lemma basename_suffix_scan_block:
  "\<forall>x \<in> set xs. snd x \<noteq> slash \<Longrightarrow>
     basename_suffix_scan sfx st (xs @ rest) =
     basename_suffix_scan sfx (foldl (\<lambda>s (i, c). suffix_char_step sfx s i c) st xs) rest"
  by (induction xs arbitrary: st) auto

text \<open>Matching the suffix from its last character down to its first one.\<close>

lemma suffix_match_effect:
  assumes "s' \<noteq> []" "s' = take (length s') sfx" "ext_idx st = int (length s') - 1"
  shows "foldl (\<lambda>s (i, c). suffix_char_step sfx s i c) st (rev (enumerate j s')) =
    (if first_non_slash_end st = -1
     then st\<lparr>bn_matched := False, first_non_slash_end := int (j + length s')\<rparr> else st)
      \<lparr>ext_idx := -1, bn_end := int j\<rparr>"
  using assms
proof (induction s' arbitrary: st rule: rev_induct)
  case Nil
  then show ?case by simp
next
  case (snoc c s'')
  have c: "sfx ! length s'' = c"
    using snoc.prems(2) by (metis length_append_singleton lessI nth_append_length nth_take)
  have pre: "s'' = take (length s'') sfx"
    using snoc.prems(2) by (metis append_eq_conv_conj length_append_singleton take_take
        le_add1 min.absorb1 Suc_eq_plus1)
  let ?F = "\<lambda>s (i, c). suffix_char_step sfx s i c"
  have first: "suffix_char_step sfx st (j + length s'') c =
      (if s'' = [] then
         (if first_non_slash_end st = -1
          then st\<lparr>bn_matched := False, first_non_slash_end := int (j + length (s'' @ [c]))\<rparr> else st)
           \<lparr>ext_idx := -1, bn_end := int j\<rparr>
       else
         (if first_non_slash_end st = -1
          then st\<lparr>bn_matched := False, first_non_slash_end := int (j + length (s'' @ [c]))\<rparr> else st)
           \<lparr>ext_idx := int (length s'') - 1\<rparr>)"
    using snoc.prems(3) c by (cases "s'' = []") (simp_all add: suffix_char_step_def Let_def)
  show ?case
  proof (cases "s'' = []")
    case True
    then show ?thesis using first by simp
  next
    case False
    have "foldl ?F st (rev (enumerate j (s'' @ [c]))) =
        foldl ?F (suffix_char_step sfx st (j + length s'') c) (rev (enumerate j s''))"
      by (simp add: enumerate_append_eq)
    also have "\<dots> =
        (if first_non_slash_end st = -1
         then st\<lparr>bn_matched := False, first_non_slash_end := int (j + length (s'' @ [c]))\<rparr> else st)
          \<lparr>ext_idx := -1, bn_end := int j\<rparr>"
      using snoc.IH [OF False pre] False first by (cases "first_non_slash_end st = -1") simp_all
    finally show ?thesis .
  qed
qed

lemma suffix_rest_effect:
  "ext_idx st = -1 \<Longrightarrow> first_non_slash_end st \<noteq> -1 \<Longrightarrow>
     foldl (\<lambda>s (i, c). suffix_char_step sfx s i c) st xs = st"
  by (induction xs) (auto simp: suffix_char_step_def)

lemma rev_enumerate_component:
  "rev (enumerate k (u @ b @ replicate t slash)) =
     rev (enumerate (k + length u + length b) (replicate t slash)) @ rev (enumerate (k + length u) b) @
     rev (enumerate k u)"
  by (simp add: rev_enumerate_append add.assoc)

lemma rev_enumerate_prefix_slash:
  "rev (enumerate k (u' @ [slash])) = (k + length u', slash) # rev (enumerate k u')"
  by (simp add: rev_enumerate_append)

lemma component_prefix_cases:
  assumes "u = [] \<or> last u = slash"
  obtains "u = []" | u' where "u = u' @ [slash]"
  using assms append_butlast_last_id by metis

text \<open>
  The scans of \<open>basename\<close> over the positions from \<open>k\<close> on, with
  \<open>start = k\<close>: POSIX scans the whole path (\<open>k = 0\<close>), win32 the path after a
  drive letter.
\<close>

lemma basename_scan_component:
  assumes p: "p = u @ b @ replicate t slash" and b: "b \<noteq> []" "slash \<notin> set b"
    and u: "u = [] \<or> last u = slash"
  shows "basename_scan (basename_vars_init\<lparr>bn_start := k\<rparr>) (rev (enumerate k p)) =
    basename_vars_init\<lparr>bn_matched := False, bn_end := int (k + length u + length b), bn_start := k + length u\<rparr>"
proof -
  let ?S = "basename_vars_init\<lparr>bn_start := k\<rparr>"
  have "basename_scan ?S (rev (enumerate k p)) =
      basename_scan (?S\<lparr>bn_matched := False, bn_end := int (k + length u + length b)\<rparr>)
        (rev (enumerate k u))"
  proof -
    have "basename_scan ?S (rev (enumerate k p)) =
        basename_scan ?S (rev (enumerate (k + length u) b) @ rev (enumerate k u))"
      unfolding p rev_enumerate_component
      by (rule basename_scan_slashes)
        (auto simp: basename_vars_init_def dest: enumerate_replicate_snd)
    also have "\<dots> = basename_scan (?S\<lparr>bn_matched := False, bn_end := int (k + length u + length b)\<rparr>)
                       (rev (enumerate k u))"
      by (subst basename_scan_block)
        (use b in \<open>auto dest: enumerate_snd_in_set simp: basename_block_effect basename_vars_init_def\<close>)
    finally show ?thesis .
  qed
  also have "\<dots> = basename_vars_init\<lparr>bn_matched := False, bn_end := int (k + length u + length b),
                                    bn_start := k + length u\<rparr>"
    using u by (rule component_prefix_cases) (simp_all add: rev_enumerate_prefix_slash basename_vars_init_def)
  finally show ?thesis .
qed

lemma node_basename_plain: "node_basename p None = last_component p"
proof (cases "last_component p = []")
  case True
  then have p: "p = replicate (trailing_slashes p) slash"
    using path_decomposition [of p] last_component_Nil [OF True] by simp
  have "basename_scan basename_vars_init (rev (enumerate 0 (replicate (trailing_slashes p) slash)) @ []) =
      basename_scan basename_vars_init []"
    by (rule basename_scan_slashes) (auto simp: basename_vars_init_def dest: enumerate_replicate_snd)
  then show ?thesis
    using True by (subst p) (simp add: node_basename_def basename_vars_init_def)
next
  case False
  note scan = basename_scan_component [OF path_decomposition False last_component_no_slash
                                           component_prefix_ends_slash, of 0]
  have "js_slice p (length (component_prefix p)) (length (component_prefix p) + length (last_component p)) =
      last_component p"
    by (subst (1) path_decomposition) (rule js_slice_append_mid)
  then show ?thesis
    using scan by (simp add: node_basename_def basename_vars_init_def del: of_nat_add)
qed

lemma basename_suffix_scan_component:
  assumes p: "p = u @ n @ sfx @ replicate t slash" and ns: "n \<noteq> []" "sfx \<noteq> []"
    "slash \<notin> set (n @ sfx)" and u: "u = [] \<or> last u = slash"
  shows "basename_suffix_scan sfx (basename_vars_init\<lparr>bn_start := k, ext_idx := int (length sfx) - 1\<rparr>)
           (rev (enumerate k p)) =
         basename_vars_init\<lparr>ext_idx := -1, bn_matched := False,
           first_non_slash_end := int (k + length u + length n + length sfx),
           bn_end := int (k + length u + length n), bn_start := k + length u\<rparr>"
proof -
  let ?F = "\<lambda>s (i, c). suffix_char_step sfx s i c"
  let ?S0 = "basename_vars_init\<lparr>bn_start := k, ext_idx := int (length sfx) - 1\<rparr>"
  let ?S1 = "basename_vars_init\<lparr>bn_start := k, ext_idx := -1, bn_matched := False,
           first_non_slash_end := int (k + length u + length n + length sfx),
           bn_end := int (k + length u + length n)\<rparr>"
  have block: "foldl ?F ?S0 (rev (enumerate (k + length u) (n @ sfx))) = ?S1"
  proof -
    have "foldl ?F ?S0 (rev (enumerate (k + length u) (n @ sfx))) =
        foldl ?F (foldl ?F ?S0 (rev (enumerate (k + length u + length n) sfx)))
          (rev (enumerate (k + length u) n))"
      by (simp add: rev_enumerate_append)
    also have "foldl ?F ?S0 (rev (enumerate (k + length u + length n) sfx)) = ?S1"
      using suffix_match_effect [OF ns(2), of sfx ?S0 "k + length u + length n"]
      by (simp add: basename_vars_init_def add.assoc)
    also have "foldl ?F ?S1 (rev (enumerate (k + length u) n)) = ?S1"
      by (rule suffix_rest_effect) simp_all
    finally show ?thesis .
  qed
  have "basename_suffix_scan sfx ?S0 (rev (enumerate k p)) =
      basename_suffix_scan sfx ?S0 (rev (enumerate (k + length u) (n @ sfx)) @ rev (enumerate k u))"
  proof -
    have p': "p = u @ (n @ sfx) @ replicate t slash" by (simp add: p)
    show ?thesis
      unfolding p' rev_enumerate_component
      by (rule basename_suffix_scan_slashes)
        (auto simp: basename_vars_init_def dest: enumerate_replicate_snd)
  qed
  also have "\<dots> = basename_suffix_scan sfx ?S1 (rev (enumerate k u))"
    by (subst basename_suffix_scan_block)
      (use ns(3) block in \<open>auto dest: enumerate_snd_in_set\<close>)
  also have "\<dots> = ?S1\<lparr>bn_start := k + length u\<rparr>"
    using u by (rule component_prefix_cases) (simp_all add: rev_enumerate_prefix_slash basename_vars_init_def)
  finally show ?thesis by (simp add: basename_vars_init_def)
qed

lemma node_basename_suffix:
  assumes "last_component p = n @ sfx" "n \<noteq> []" "sfx \<noteq> []"
  shows "node_basename p (Some sfx) = n"
proof -
  define u where "u = component_prefix p"
  define t where "t = trailing_slashes p"
  have p: "p = u @ n @ sfx @ replicate t slash"
    using path_decomposition [of p] assms(1) by (simp add: u_def t_def)
  have ns: "slash \<notin> set (n @ sfx)" using last_component_no_slash [of p] assms(1) by simp
  note scan = basename_suffix_scan_component [OF p assms(2,3) ns component_prefix_ends_slash [of p, folded u_def], of 0]
  have "length sfx < length p" using assms(2) by (simp add: p)
  then have guard: "0 < length sfx \<and> length sfx \<le> length p \<and> sfx \<noteq> p"
    using assms(3) by auto
  have ne: "int (length u) \<noteq> int (length u + length n)" using assms(2) by simp
  have "js_slice p (length u) (length u + length n) = n"
    by (simp add: p js_slice_def)
  then show ?thesis
    using guard scan ne by (simp add: node_basename_def basename_vars_init_def Let_def del: of_nat_add)
qed

lemma node_basename_Some_Nil: "node_basename p (Some []) = node_basename p None"
  by (simp add: node_basename_def)

subsection \<open>Joining with the binary directory\<close>

lemma normalize_segments_plain:
  "\<forall>s \<in> set segs. plain_segment s \<Longrightarrow> normalize_segments a acc (segs @ rest) = normalize_segments a (acc @ segs) rest"
  by (induction segs arbitrary: acc) (auto simp: plain_segment_def)

lemma normalize_segments_up:
  assumes "\<forall>s \<in> set acc. plain_segment s"
  shows "normalize_segments False acc (''..'' # rest) = normalize_segments False (butlast acc) rest"
proof (cases "acc = []")
  case False
  with assms have "last acc \<noteq> ''..''" by (auto simp: plain_segment_def)
  with False show ?thesis by simp
qed simp

lemma plain_segment_take:
  "\<forall>s \<in> set segs. plain_segment s \<Longrightarrow> \<forall>s \<in> set (take k segs). plain_segment s"
  by (auto dest: in_set_takeD)

lemma normalize_bin_dir:
  assumes "\<forall>s \<in> set segs. plain_segment s" "plain_segment plat"
  shows "normalize_segments False [] ([] # segs @ [''..'', ''..'', ''..'', ''bin'', [], plat]) =
    take (length segs - 3) segs @ [''bin'', plat]"
proof -
  have up: "normalize_segments False (take k segs) (''..'' # rest) =
      normalize_segments False (take (k - 1) segs) rest" if "k \<le> length segs" for k rest
  proof -
    have "butlast (take k segs) = take (k - 1) segs" using that by (simp add: butlast_take)
    then show ?thesis using normalize_segments_up [OF plain_segment_take [OF assms(1)], of k rest]
      by (simp only:)
  qed
  have "normalize_segments False [] ([] # segs @ [''..'', ''..'', ''..'', ''bin'', [], plat]) =
      normalize_segments False (take (length segs) segs) [''..'', ''..'', ''..'', ''bin'', [], plat]"
    using normalize_segments_plain [OF assms(1), of False "[]"] by simp
  also have "\<dots> = normalize_segments False (take (length segs - 1 - 1 - 1) segs) [''bin'', [], plat]"
    using up [of "length segs"] up [of "length segs - 1"] up [of "length segs - 1 - 1"]
    by (simp only: order_refl diff_le_self le_trans [OF diff_le_self diff_le_self] simp_thms)
  also have "\<dots> = take (length segs - 3) segs @ [''bin'', plat]"
    using assms(2) by (simp add: plain_segment_def numeral_3_eq_3)
  finally show ?thesis .
qed

lemma node_join_bin_dir:
  assumes "segs \<noteq> []" "\<forall>s \<in> set segs. plain_segment s" "plain_segment plat"
  shows "node_join [join_with ''/'' ([] # segs), ''../../../bin/'', plat] =
    ''/'' @ join_with ''/'' (take (length segs - 3) segs @ [''bin'', plat])"
proof -
  define all where "all = [] # segs @ [''..'', ''..'', ''..'', ''bin'', [], plat]"
  have nz: "join_with ''/'' ([] # segs) \<noteq> []" using assms(1) by (cases segs) simp_all
  have pl: "plat \<noteq> []" "slash \<notin> set plat" using assms(3) by (simp_all add: plain_segment_def)
  have joined: "join_with ''/'' [join_with ''/'' ([] # segs), ''../../../bin/'', plat] = join_with ''/'' all"
  proof -
    have "join_with ''/'' all = join_with ''/'' ([] # segs) @ ''/'' @
        join_with ''/'' [''..'', ''..'', ''..'', ''bin'', [], plat]"
      unfolding all_def using join_with_append [of "[] # segs" "[''..'', ''..'', ''..'', ''bin'', [], plat]" "''/''"]
      by simp
    then show ?thesis by simp
  qed
  have nosl: "\<forall>s \<in> set all. slash \<notin> set s"
    using assms(2) pl by (auto simp: all_def plain_segment_def)
  have sp: "js_split (join_with ''/'' all) ''/'' = all"
    using split_on_char_join [of all slash] nosl by (simp add: all_def js_split_char)
  have hd: "hd (join_with ''/'' all) = slash"
    using assms(1) by (cases segs) (simp_all add: all_def)
  have jw: "join_with ''/'' all = join_with ''/'' ([] # segs @ [''..'', ''..'', ''..'', ''bin'', []]) @ ''/'' @ plat"
      unfolding all_def
      using join_with_append [of "[] # segs @ [''..'', ''..'', ''..'', ''bin'', []]" "[plat]" "''/''"] by simp
  have lst: "last (join_with ''/'' all) \<noteq> slash"
  proof -
    have "last plat \<noteq> slash" using pl by (metis last_in_set)
    then show ?thesis using pl(1) by (simp add: jw)
  qed
  have nn: "join_with ''/'' all \<noteq> []" by (simp add: jw)
  have filt: "filter (\<lambda>a. a \<noteq> []) [join_with ''/'' ([] # segs), ''../../../bin/'', plat] =
      [join_with ''/'' ([] # segs), ''../../../bin/'', plat]"
    using nz pl(1) by simp
  have "node_normalize (join_with ''/'' all) =
      ''/'' @ join_with ''/'' (take (length segs - 3) segs @ [''bin'', plat])"
    unfolding node_normalize_def Let_def sp
    using nn hd lst by (simp add: normalize_bin_dir [OF assms(2,3), folded all_def])
  then show ?thesis
    unfolding node_join_def Let_def filt joined by simp
qed

subsection \<open>Normalised absolute paths\<close>

lemma normalize_segments_skip:
  "x = [] \<or> x = ''.'' \<Longrightarrow> normalize_segments a acc (x # xs) = normalize_segments a acc xs"
  by auto

lemma normalize_segments_up_False:
  "normalize_segments False acc (''..'' # xs) =
     (if acc \<noteq> [] \<and> last acc \<noteq> ''..'' then normalize_segments False (butlast acc) xs
      else normalize_segments False acc xs)"
  by simp

lemma normalize_segments_push:
  "\<not> (x = [] \<or> x = ''.'') \<Longrightarrow> x \<noteq> ''..'' \<Longrightarrow>
     normalize_segments a acc (x # xs) = normalize_segments a (acc @ [x]) xs"
  by simp

lemma normalize_segments_result_plain:
  "\<forall>s \<in> set acc. plain_segment s \<Longrightarrow> \<forall>x \<in> set xs. slash \<notin> set x \<Longrightarrow>
     \<forall>s \<in> set (normalize_segments False acc xs). plain_segment s"
proof (induction xs arbitrary: acc)
  case Nil
  then show ?case by simp
next
  case (Cons x xs)
  have xs: "\<forall>x \<in> set xs. slash \<notin> set x" using Cons.prems(2) by simp
  show ?case
  proof (cases "x = [] \<or> x = ''.''")
    case True
    then show ?thesis
      using Cons.IH [OF Cons.prems(1) xs] by (simp only: normalize_segments_skip)
  next
    case False
    show ?thesis
    proof (cases "x = ''..''")
      case True
      have bl: "\<forall>s \<in> set (butlast acc). plain_segment s"
        using Cons.prems(1) by (auto dest: in_set_butlastD)
      show ?thesis
        using Cons.IH [OF Cons.prems(1) xs] Cons.IH [OF bl xs]
        unfolding True normalize_segments_up_False by simp
    next
      case F2: False
      have "\<forall>s \<in> set (acc @ [x]). plain_segment s"
        using Cons.prems False F2 by (simp add: plain_segment_def)
      then show ?thesis
        using Cons.IH [OF _ xs] unfolding normalize_segments_push [OF False F2] by blast
    qed
  qed
qed

lemma normalize_segments_snoc_plain:
  "plain_segment t \<Longrightarrow> normalize_segments a acc (xs @ [t]) = normalize_segments a acc xs @ [t]"
proof (induction xs arbitrary: acc)
  case Nil
  then show ?case by (simp add: plain_segment_def)
next
  case (Cons x xs)
  show ?case
  proof (cases "x = [] \<or> x = ''.''")
    case True
    then show ?thesis using Cons by (simp only: normalize_segments_skip append_Cons)
  next
    case False
    show ?thesis
    proof (cases "x = ''..''")
      case True
      then show ?thesis using Cons by (cases a) (simp_all del: normalize_segments.simps(2)
          add: normalize_segments.simps(2) [of _ _ "''..''"])
    next
      case F2: False
      show ?thesis
        unfolding append_Cons normalize_segments_push [OF False F2] using Cons.IH Cons.prems by simp
    qed
  qed
qed

lemma abs_normal_join:
  assumes "segs \<noteq> []" "\<forall>s \<in> set segs. plain_segment s"
  shows "abs_normal (''/'' @ join_with ''/'' segs)"
proof -
  have nosl: "\<forall>s \<in> set segs. slash \<notin> set s" using assms(2) by (auto simp: plain_segment_def)
  have sp: "js_split (join_with ''/'' segs) ''/'' = segs"
    using split_on_char_join [OF assms(1)] nosl by (simp add: js_split_char)
  obtain ys y where ys: "segs = ys @ [y]" using assms(1) by (metis rev_exhaust)
  have y: "plain_segment y" using assms(2) ys by simp
  have jl: "join_with ''/'' segs = (if ys = [] then y else join_with ''/'' ys @ ''/'' @ y)"
    using join_with_append [of ys "[y]" "''/''"] ys by auto
  have "last (''/'' @ join_with ''/'' segs) \<noteq> slash"
  proof -
    have "y \<noteq> []" "last y \<noteq> slash" using y by (auto simp: plain_segment_def dest: last_in_set)
    then show ?thesis using jl by (simp split: if_splits)
  qed
  moreover have "''/'' @ join_with ''/'' segs \<noteq> ''/''"
    using jl y by (auto simp: plain_segment_def split: if_splits)
  ultimately show ?thesis using sp assms(2) by (simp add: abs_normal_def)
qed

text \<open>Normalising an absolute path gives an absolute path without empty, \<open>.\<close> or
  \<open>..\<close> segments, which normalising again leaves unchanged.\<close>

lemma node_normalize_abs:
  assumes "p \<noteq> []" "hd p = slash" "last p \<noteq> slash"
    and "normalize_segments False [] (js_split p ''/'') \<noteq> []"
  shows "node_normalize p = ''/'' @ join_with ''/'' (normalize_segments False [] (js_split p ''/''))"
  using assms by (simp add: node_normalize_def Let_def)

lemma node_normalize_plain_join:
  assumes "segs \<noteq> []" "\<forall>s \<in> set segs. plain_segment s"
  shows "node_normalize (''/'' @ join_with ''/'' segs) = ''/'' @ join_with ''/'' segs"
proof -
  have nosl: "\<forall>s \<in> set segs. slash \<notin> set s" using assms(2) by (auto simp: plain_segment_def)
  have jn: "join_with ''/'' segs \<noteq> []"
  proof -
    obtain s1 ss where "segs = s1 # ss" using assms(1) by (cases segs) auto
    moreover have "s1 \<noteq> []" using assms(2) calculation by (simp add: plain_segment_def)
    ultimately show ?thesis by (simp add: join_with_Cons)
  qed
  have "js_split (''/'' @ join_with ''/'' segs) ''/'' = [] # segs"
  proof -
    have "''/'' @ join_with ''/'' segs = join_with ''/'' ([] # segs)" using assms(1) by (cases segs) simp_all
    then show ?thesis using split_on_char_join [of "[] # segs" slash] nosl by (simp add: js_split_char)
  qed
  moreover have "normalize_segments False [] ([] # segs) = segs"
    using normalize_segments_plain [OF assms(2), of False "[]" "[]"] by simp
  moreover have "last (''/'' @ join_with ''/'' segs) \<noteq> slash"
    using abs_normal_join [OF assms] jn by (auto simp: abs_normal_def)
  ultimately show ?thesis
    using node_normalize_abs [of "''/'' @ join_with ''/'' segs"] assms(1) jn by simp
qed

lemma node_join_abs_normal:
  assumes "dir \<noteq> []" "hd dir = slash" "plain_segment t"
  defines "d \<equiv> node_join [dir, ''../../../bin/'', t]"
  shows "abs_normal d \<and> node_normalize d = d"
proof -
  have t: "t \<noteq> []" "slash \<notin> set t" using assms(3) by (simp_all add: plain_segment_def)
  define J0 where "J0 = dir @ ''/../../../bin/''"
  define J where "J = J0 @ slash # t"
  have dJ: "d = node_normalize J"
    using assms(1) t(1) by (simp add: d_def node_join_def J_def J0_def)
  have J: "J \<noteq> []" "hd J = slash" "last J \<noteq> slash"
    using assms(1,2) t by (auto simp: J_def J0_def dest: last_in_set)
  define xs where "xs = split_on_char slash J0"
  have sp: "js_split J ''/'' = xs @ [t]"
    using split_on_char_append [of slash J0 t] split_on_char_no_sep [OF t(2)]
    by (simp add: J_def xs_def js_split_char)
  have xs: "\<forall>x \<in> set xs. slash \<notin> set x" by (auto simp: xs_def dest: split_on_char_no_char)
  define segs where "segs = normalize_segments False [] xs @ [t]"
  have segs: "normalize_segments False [] (js_split J ''/'') = segs" "segs \<noteq> []"
    "\<forall>s \<in> set segs. plain_segment s"
    using normalize_segments_snoc_plain [OF assms(3)] normalize_segments_result_plain [of "[]" xs] xs assms(3)
    by (simp_all add: sp segs_def)
  have "d = ''/'' @ join_with ''/'' segs"
    using node_normalize_abs [OF J] segs(1,2) by (simp add: dJ)
  then show ?thesis using abs_normal_join [OF segs(2,3)] node_normalize_plain_join [OF segs(2,3)] by simp
qed

subsection \<open>The base, name and extension of a parsed path\<close>

lemma parse_result_base_split:
  assumes "start_dot st \<noteq> -1 \<Longrightarrow> end_pos st \<noteq> -1 \<Longrightarrow>
     (if start_part st = 0 \<and> a then 1 else start_part st) \<le> nat (start_dot st) \<and>
     nat (start_dot st) \<le> nat (end_pos st)"
  shows "p_base (parse_result p a st) = p_name (parse_result p a st) @ p_ext (parse_result p a st)"
  using assms by (auto simp: parse_result_def Let_def js_slice_append le_Suc_eq)

lemma parse_component_state:
  assumes p: "p = u @ b @ replicate t slash" and b: "b \<noteq> []" "slash \<notin> set b"
    and u: "u = [] \<or> last u = slash"
  obtains st where "node_path_parse p = parse_result p (hd p = slash) st"
    "end_pos st = int (length u + length b)"
    "(if start_part st = 0 \<and> hd p = slash then 1 else start_part st) = length u"
    "start_dot st = (case last_dot b of None \<Rightarrow> -1 | Some d \<Rightarrow> int (length u + d))"
proof -
  have pne: "p \<noteq> []" using p b by simp
  have hb: "hd b \<noteq> slash" using b by (cases b) auto
  let ?st = "(parse_block_vars (length u) b)\<lparr>start_part := (if length u \<le> 1 then 0 else length u)\<rparr>"
  have "node_path_parse p = parse_result p (hd p = slash) ?st"
    using parse_scan_component [OF p b u] by (simp add: node_path_parse_scan [OF pne])
  moreover have "(if start_part ?st = 0 \<and> hd p = slash then 1 else start_part ?st) = length u"
    using u
  proof (rule component_prefix_cases)
    assume "u = []" then show ?thesis using hb b(1) by (simp add: p hd_append)
  next
    fix u' assume "u = u' @ [slash]"
    then show ?thesis by (cases u') (simp_all add: p)
  qed
  ultimately show ?thesis
    by (intro that [of ?st]) (simp_all add: parse_block_vars_def parse_vars_init_def)
qed

lemma parse_all_slashes_state:
  "node_path_parse (replicate t slash) =
     (if t = 0 then node_path_parse [] else parse_result (replicate t slash) True parse_vars_init)"
proof (cases t)
  case (Suc t')
  have "parse_scan parse_vars_init (rev (enumerate 1 (replicate t' slash)) @ []) =
      parse_scan parse_vars_init []"
    by (rule parse_scan_slashes) (auto simp: parse_vars_init_def dest: enumerate_replicate_snd)
  then show ?thesis using Suc by (simp add: node_path_parse_def)
qed simp

lemma parse_base_component:
  "last_component p \<noteq> [] \<Longrightarrow> p_base (node_path_parse p) = last_component p \<and>
     p_base (node_path_parse p) = p_name (node_path_parse p) @ p_ext (node_path_parse p)"
proof -
  assume ne: "last_component p \<noteq> []"
  let ?u = "component_prefix p" and ?b = "last_component p"
  obtain st where st: "node_path_parse p = parse_result p (hd p = slash) st"
      "end_pos st = int (length ?u + length ?b)"
      "(if start_part st = 0 \<and> hd p = slash then 1 else start_part st) = length ?u"
      "start_dot st = (case last_dot ?b of None \<Rightarrow> -1 | Some d \<Rightarrow> int (length ?u + d))"
    using parse_component_state [OF path_decomposition ne last_component_no_slash
                                    component_prefix_ends_slash] by blast
  have "js_slice p (length ?u) (length ?u + length ?b) = ?b"
    by (subst (1) path_decomposition) (rule js_slice_append_mid)
  then have base: "p_base (node_path_parse p) = ?b"
    using st ne by (simp add: parse_result_def Let_def del: of_nat_add)
  have "start_dot st \<noteq> -1 \<Longrightarrow>
      (if start_part st = 0 \<and> hd p = slash then 1 else start_part st) \<le> nat (start_dot st) \<and>
      nat (start_dot st) \<le> nat (end_pos st)"
    using st(2-4) last_dot_Some [of ?b] by (auto split: option.splits)
  then show ?thesis using base st(1) parse_result_base_split by metis
qed

lemma parse_all_slashes_fields:
  "last_component p = [] \<Longrightarrow>
     p_base (node_path_parse p) = [] \<and> p_name (node_path_parse p) = [] \<and> p_ext (node_path_parse p) = []"
proof -
  assume e: "last_component p = []"
  then have p: "p = replicate (trailing_slashes p) slash"
    using path_decomposition [of p] last_component_Nil [OF e] by simp
  show ?thesis
    by (subst (1 2 3) p, subst (1 2 3) parse_all_slashes_state)
       (simp add: node_path_parse_def parse_result_def parse_vars_init_def)
qed

subsection \<open>Properties\<close>

text \<open>
  \<open>path.parse\<close> and \<open>path.basename\<close> agree: the \<open>base\<close> field of the
  parsed path is the base name, for every path.
\<close>

lemma parse_base_basename: "p_base (node_path_parse p) = node_basename p None"
proof (cases "last_component p = []")
  case True
  then show ?thesis using parse_all_slashes_fields [OF True] by (simp add: node_basename_plain)
next
  case False
  then show ?thesis using parse_base_component [OF False] by (simp add: node_basename_plain)
qed

text \<open>
  Invariant of the parsed path: its \<open>base\<close> is its \<open>name\<close> followed by its
  \<open>ext\<close>, for every path.
\<close>

lemma parse_base_name_ext:
  "p_base (node_path_parse p) = p_name (node_path_parse p) @ p_ext (node_path_parse p)"
proof (cases "last_component p = []")
  case True
  then show ?thesis using parse_all_slashes_fields [OF True] by simp
next
  case False
  then show ?thesis using parse_base_component [OF False] by blast
qed

end
