(* ===== verification/Node_Path_Win32.thy ===== *)
theory Node_Path_Win32
  imports Node_Path
begin

text \<open>
  Node's \<^verbatim>\<open>path.win32\<close>, the module that \<^verbatim>\<open>import ... from 'path'\<close> binds on
  a Windows host: \<open>parse\<close>, \<open>basename\<close>, \<open>normalize\<close> and \<open>join\<close>, as Node's
  \<^verbatim>\<open>lib/path.js\<close> implements them (without the check for a colon in a relative
  path without a drive that later releases added to \<open>normalize\<close>). Both
  slash and backslash separate components, and a path may start with a root: a
  drive (\<open>C:\<close>, or \<open>C:\<close> and a separator) or a UNC share (two separators, a
  server name, separators and a share name). The right-to-left loops are those of the POSIX
  variant with \<open>isPathSeparator\<close> for the slash test and the root as lower bound;
  their loop bodies for a non-separator character are the POSIX ones
  (\<open>parse_char_step\<close>, \<open>suffix_char_step\<close>). The leading while-loops of the root
  matching are counts of a run of characters, in the style of \<open>find_index\<close>.
\<close>

abbreviation backslash :: char where "backslash \<equiv> CHR 0x5C"
abbreviation colon :: char where "colon \<equiv> CHR '':''"

definition is_path_separator :: "char \<Rightarrow> bool" where
  "is_path_separator c \<longleftrightarrow> c = slash \<or> c = backslash"

definition is_windows_device_root :: "char \<Rightarrow> bool" where
  "is_windows_device_root c \<longleftrightarrow>
     (let n = of_char c :: nat in (65 \<le> n \<and> n \<le> 90) \<or> (97 \<le> n \<and> n \<le> 122))"

text \<open>\<open>while (j < len && P(path[j])) j++\<close>, from \<open>j\<close>.\<close>

definition skip_while :: "(char \<Rightarrow> bool) \<Rightarrow> js_string \<Rightarrow> nat \<Rightarrow> nat" where
  "skip_while P path j = j + length (takeWhile P (drop j path))"

text \<open>
  The UNC root after two leading separators: a server name (a run of
  non-separators from index 2, ending at \<open>j1\<close>), separators up to \<open>j2\<close>, and a
  share name up to \<open>j3\<close>. \<open>None\<close> when the server name is empty or runs to the
  end, or nothing follows its separators.
\<close>

definition unc_root :: "js_string \<Rightarrow> (nat \<times> nat \<times> nat) option" where
  "unc_root path =
     (let len = length path;
          j1 = skip_while (\<lambda>c. \<not> is_path_separator c) path 2
      in if j1 < len \<and> j1 \<noteq> 2 then
           (let j2 = skip_while is_path_separator path j1
            in if j2 < len \<and> j2 \<noteq> j1 then
                 Some (j1, j2, skip_while (\<lambda>c. \<not> is_path_separator c) path j2)
               else None)
         else None)"

subsection \<open>path.win32.parse\<close>

fun parse_scan_win32 :: "parse_vars \<Rightarrow> (nat \<times> char) list \<Rightarrow> parse_vars" where
  "parse_scan_win32 st [] = st"
| "parse_scan_win32 st ((i, code) # rest) =
     (if is_path_separator code then
        (if \<not> matched_slash st then st\<lparr>start_part := i + 1\<rparr> else parse_scan_win32 st rest)
      else parse_scan_win32 (parse_char_step st i code) rest)"

text \<open>\<open>rootEnd\<close> of a path of two or more characters that is not a bare drive.\<close>

definition win32_root_end :: "js_string \<Rightarrow> nat" where
  "win32_root_end path =
     (let len = length path; code = path ! 0
      in if is_path_separator code then
           (if is_path_separator (path ! 1) then
              (case unc_root path of
                 None \<Rightarrow> 1
               | Some (j1, j2, j3) \<Rightarrow> if j3 = len then j3 else if j3 \<noteq> j2 then j3 + 1 else 1)
            else 1)
         else if is_windows_device_root code \<and> path ! 1 = colon then
           (if is_path_separator (path ! 2) then 3 else 2)
         else 0)"

text \<open>The early returns for a bare drive, \<open>C:\<close> or \<open>C:\\\<close>.\<close>

definition win32_bare_drive :: "js_string \<Rightarrow> bool" where
  "win32_bare_drive path \<longleftrightarrow>
     \<not> is_path_separator (path ! 0) \<and> is_windows_device_root (path ! 0) \<and> path ! 1 = colon \<and>
     (length path \<le> 2 \<or> (is_path_separator (path ! 2) \<and> length path = 3))"

definition win32_parse_result :: "js_string \<Rightarrow> nat \<Rightarrow> parsed_path \<Rightarrow> parse_vars \<Rightarrow> parsed_path" where
  "win32_parse_result path root_end ret st =
     (let ret1 =
            (if end_pos st \<noteq> -1 then
               if start_dot st = -1 \<or> pre_dot_state st = 0 \<or>
                  (pre_dot_state st = 1 \<and> start_dot st = end_pos st - 1 \<and>
                   start_dot st = int (start_part st) + 1)
               then ret\<lparr>p_base := js_slice path (start_part st) (nat (end_pos st)),
                        p_name := js_slice path (start_part st) (nat (end_pos st))\<rparr>
               else ret\<lparr>p_name := js_slice path (start_part st) (nat (start_dot st)),
                        p_base := js_slice path (start_part st) (nat (end_pos st)),
                        p_ext := js_slice path (nat (start_dot st)) (nat (end_pos st))\<rparr>
             else ret)
      in if 0 < start_part st \<and> start_part st \<noteq> root_end
         then ret1\<lparr>p_dir := js_slice path 0 (start_part st - 1)\<rparr>
         else ret1\<lparr>p_dir := p_root ret1\<rparr>)"

definition win32_parse :: "js_string \<Rightarrow> parsed_path" where
  "win32_parse path =
     (let ret = \<lparr>p_root = [], p_dir = [], p_base = [], p_ext = [], p_name = []\<rparr>
      in if path = [] then ret
         else if length path = 1 then
           (if is_path_separator (hd path) then ret\<lparr>p_root := path, p_dir := path\<rparr>
            else ret\<lparr>p_base := path, p_name := path\<rparr>)
         else if win32_bare_drive path then ret\<lparr>p_root := path, p_dir := path\<rparr>
         else
           let root_end = win32_root_end path;
               ret0 = (if 0 < root_end then ret\<lparr>p_root := js_slice path 0 root_end\<rparr> else ret)
           in win32_parse_result path root_end ret0
                (parse_scan_win32 (parse_vars_init\<lparr>start_part := root_end\<rparr>)
                   (rev (enumerate root_end (drop root_end path)))))"

subsection \<open>path.win32.basename\<close>

fun basename_scan_win32 :: "basename_vars \<Rightarrow> (nat \<times> char) list \<Rightarrow> basename_vars" where
  "basename_scan_win32 st [] = st"
| "basename_scan_win32 st ((i, code) # rest) =
     (if is_path_separator code then
        (if \<not> bn_matched st then st\<lparr>bn_start := i + 1\<rparr> else basename_scan_win32 st rest)
      else if bn_end st = -1 then basename_scan_win32 (st\<lparr>bn_matched := False, bn_end := int i + 1\<rparr>) rest
      else basename_scan_win32 st rest)"

fun basename_suffix_scan_win32 :: "js_string \<Rightarrow> basename_vars \<Rightarrow> (nat \<times> char) list \<Rightarrow> basename_vars" where
  "basename_suffix_scan_win32 sfx st [] = st"
| "basename_suffix_scan_win32 sfx st ((i, code) # rest) =
     (if is_path_separator code then
        (if \<not> bn_matched st then st\<lparr>bn_start := i + 1\<rparr> else basename_suffix_scan_win32 sfx st rest)
      else basename_suffix_scan_win32 sfx (suffix_char_step sfx st i code) rest)"

definition win32_basename :: "js_string \<Rightarrow> js_string option \<Rightarrow> js_string" where
  "win32_basename path suffix_arg =
     (let start = (if 2 \<le> length path \<and> is_windows_device_root (path ! 0) \<and> path ! 1 = colon
                   then 2 else 0);
          xs = rev (enumerate start (drop start path));
          plain = (let st = basename_scan_win32 (basename_vars_init\<lparr>bn_start := start\<rparr>) xs
                   in if bn_end st = -1 then [] else js_slice path (bn_start st) (nat (bn_end st)))
      in case suffix_arg of
           Some sfx \<Rightarrow>
             if 0 < length sfx \<and> length sfx \<le> length path then
               (if sfx = path then []
                else
                  let st = basename_suffix_scan_win32 sfx
                             (basename_vars_init\<lparr>bn_start := start, ext_idx := int (length sfx) - 1\<rparr>) xs;
                      e = (if int (bn_start st) = bn_end st then first_non_slash_end st
                           else if bn_end st = -1 then int (length path)
                           else bn_end st)
                  in js_slice path (bn_start st) (nat e))
             else plain
         | None \<Rightarrow> plain)"

subsection \<open>path.win32.normalize and path.win32.join\<close>

text \<open>
  \<open>normalizeString(path, allowAboveRoot, '\\', isPathSeparator)\<close>: the
  components between separators of either kind, resolved as in the POSIX
  variant, joined with backslashes.
\<close>

fun split_seps :: "js_string \<Rightarrow> js_string list" where
  "split_seps [] = [[]]"
| "split_seps (c # cs) =
     (let r = split_seps cs in if is_path_separator c then [] # r else (c # hd r) # tl r)"

definition normalize_string_win32 :: "js_string \<Rightarrow> bool \<Rightarrow> js_string" where
  "normalize_string_win32 path allow_above_root =
     join_with [backslash] (normalize_segments allow_above_root [] (split_seps path))"

text \<open>
  The root of \<open>normalize\<close>: either the early return of a bare UNC root, or
  \<open>(rootEnd, device, isAbsolute)\<close>.
\<close>

definition win32_normalize_root :: "js_string \<Rightarrow> js_string + nat \<times> js_string option \<times> bool" where
  "win32_normalize_root path =
     (let len = length path; code = path ! 0
      in if is_path_separator code then
           (if is_path_separator (path ! 1) then
              (case unc_root path of
                 None \<Rightarrow> Inr (0, None, True)
               | Some (j1, j2, j3) \<Rightarrow>
                   let first_part = js_slice path 2 j1
                   in if j3 = len then
                        Inl ([backslash, backslash] @ first_part @ [backslash] @ drop j2 path @ [backslash])
                      else if j3 \<noteq> j2 then
                        Inr (j3, Some ([backslash, backslash] @ first_part @ [backslash] @ js_slice path j2 j3), True)
                      else Inr (0, None, True))
            else Inr (1, None, True))
         else if is_windows_device_root code \<and> path ! 1 = colon then
           (if 2 < len \<and> is_path_separator (path ! 2) then Inr (3, Some (take 2 path), True)
            else Inr (2, Some (take 2 path), False))
         else Inr (0, None, False))"

definition win32_normalize :: "js_string \<Rightarrow> js_string" where
  "win32_normalize path =
     (let len = length path
      in if len = 0 then ''.''
         else if len = 1 then (if path = ''/'' then [backslash] else path)
         else case win32_normalize_root path of
           Inl unc \<Rightarrow> unc
         | Inr (root_end, device, is_absolute) \<Rightarrow>
             let tail0 = (if root_end < len
                          then normalize_string_win32 (drop root_end path) (\<not> is_absolute) else []);
                 tail1 = (if tail0 = [] \<and> \<not> is_absolute then ''.'' else tail0);
                 tail = (if tail1 \<noteq> [] \<and> is_path_separator (path ! (len - 1))
                         then tail1 @ [backslash] else tail1)
             in case device of
                  None \<Rightarrow> if is_absolute then backslash # tail else tail
                | Some d \<Rightarrow> if is_absolute then d @ backslash # tail else d @ tail)"

text \<open>
  \<open>join\<close>: the non-empty arguments joined with backslashes; a run of two or more
  leading separators is collapsed to one unless the first argument starts with
  exactly two separators and something else (a UNC path).
\<close>

definition win32_join :: "js_string list \<Rightarrow> js_string" where
  "win32_join args =
     (let parts = filter (\<lambda>a. a \<noteq> []) args
      in if parts = [] then ''.''
         else
           let joined = join_with [backslash] parts;
               first_part = hd parts;
               first_len = length first_part;
               (needs_replace, slash_count) =
                 (if is_path_separator (first_part ! 0) then
                    (if 1 < first_len \<and> is_path_separator (first_part ! 1) then
                       (if 2 < first_len then
                          (if is_path_separator (first_part ! 2) then (True, 3) else (False, 2))
                        else (True, 2))
                     else (True, 1))
                  else (True, 0));
               joined' = (if needs_replace then
                            let k = skip_while is_path_separator joined slash_count
                            in if 2 \<le> k then backslash # drop k joined else joined
                          else joined)
           in win32_normalize joined')"

subsection \<open>Abstract reading of a Windows path\<close>

text \<open>
  \<open>sep_to_slash\<close> writes every separator of either kind as a slash, so that a
  Windows path can be read with the POSIX notions of \<open>Node_Path\<close>;
  \<open>win32_plain_segment\<close> is a component that Windows normalisation keeps as it is.
\<close>

definition sep_to_slash :: "js_string \<Rightarrow> js_string" where
  "sep_to_slash s = map (\<lambda>c. if is_path_separator c then slash else c) s"

definition win32_plain_segment :: "js_string \<Rightarrow> bool" where
  "win32_plain_segment s \<longleftrightarrow> plain_segment s \<and> backslash \<notin> set s"

text \<open>
  The abstract reading of \<open>parse\<close> on Windows: the root (\<open>win32_root_length\<close>),
  the last component after it with both separators counted
  (\<open>win32_last_component\<close>), and its extension (\<open>ext_plain\<close>: from the last
  dot, empty without a dot, for a leading only dot, and for \<open>..\<close>).
\<close>

definition ext_plain :: "js_string \<Rightarrow> js_string" where
  "ext_plain b = (case last_dot b of None \<Rightarrow> [] | Some d \<Rightarrow> if d = 0 \<or> b = ''..'' then [] else drop d b)"

definition win32_root_length :: "js_string \<Rightarrow> nat" where
  "win32_root_length p =
     (if length p < 2 then 0 else if win32_bare_drive p then length p else win32_root_end p)"

definition win32_last_component :: "js_string \<Rightarrow> js_string" where
  "win32_last_component p = last_component (drop (win32_root_length p) (sep_to_slash p))"

subsection \<open>Separators and the join of the binary directory\<close>

lemma is_path_separator_simps [simp]:
  "is_path_separator slash" "is_path_separator backslash" "\<not> is_path_separator dot"
  "\<not> is_path_separator colon"
  by (simp_all add: is_path_separator_def)

lemma device_root_not_sep: "is_windows_device_root c \<Longrightarrow> \<not> is_path_separator c"
  by (auto simp: is_windows_device_root_def is_path_separator_def)

lemma sep_to_slash_no_sep:
  "\<forall>c \<in> set s. \<not> is_path_separator c \<Longrightarrow> sep_to_slash s = s"
  by (induction s) (auto simp: sep_to_slash_def)

lemma length_sep_to_slash [simp]: "length (sep_to_slash s) = length s"
  by (simp add: sep_to_slash_def)

lemma sep_to_slash_append [simp]: "sep_to_slash (u @ v) = sep_to_slash u @ sep_to_slash v"
  by (simp add: sep_to_slash_def)

lemma sep_to_slash_join:
  "sep_to_slash (join_with [backslash] xs) = join_with ''/'' (map sep_to_slash xs)"
proof (induction xs)
  case (Cons x xs)
  then show ?case by (cases xs) (simp_all add: sep_to_slash_def)
qed (simp add: sep_to_slash_def)

lemma split_seps_eq: "split_seps s = split_on_char slash (sep_to_slash s)"
proof (induction s)
  case (Cons c cs)
  show ?case
  proof (cases "is_path_separator c")
    case False
    then have "c \<noteq> slash" by auto
    with False Cons show ?thesis by (simp add: sep_to_slash_def Let_def)
  qed (use Cons in \<open>simp add: sep_to_slash_def Let_def\<close>)
qed (simp add: sep_to_slash_def)

lemma win32_plain_no_sep:
  "win32_plain_segment s \<Longrightarrow> \<forall>c \<in> set s. \<not> is_path_separator c"
  by (auto simp: win32_plain_segment_def plain_segment_def is_path_separator_def)

lemma sep_to_slash_plain: "win32_plain_segment s \<Longrightarrow> sep_to_slash s = s"
  by (rule sep_to_slash_no_sep [OF win32_plain_no_sep])

lemma concat_map_Cons_join:
  "xs \<noteq> [] \<Longrightarrow> concat (map (\<lambda>s. c # s) xs) = c # join_with [c] xs"
proof (induction xs)
  case (Cons x xs)
  then show ?case by (cases xs) simp_all
qed simp

lemma skip_while_first:
  "j < length p \<Longrightarrow> \<not> P (p ! j) \<Longrightarrow> skip_while P p j = j"
  by (simp add: skip_while_def Cons_nth_drop_Suc [symmetric])

lemma win32_join_bin_dir:
  assumes dr: "is_windows_device_root dr" and segs: "\<forall>s \<in> set segs. win32_plain_segment s"
    and t: "win32_plain_segment t"
  shows "win32_join [[dr, colon] @ concat (map (\<lambda>s. backslash # s) segs), ''../../../bin/'', t] =
    [dr, colon] @ concat (map (\<lambda>s. backslash # s) (take (length segs - 3) segs @ [''bin'', t]))"
proof -
  define D where "D = [dr, colon] @ concat (map (\<lambda>s. backslash # s) segs)"
  define B where "B = ''../../../bin/''"
  define J where "J = [dr, colon, backslash] @ join_with [backslash] (segs @ [B, t])"
  have tne: "t \<noteq> []" using t by (simp add: win32_plain_segment_def plain_segment_def)
  have D: "D = [dr, colon] @ (if segs = [] then [] else backslash # join_with [backslash] segs)"
    using concat_map_Cons_join [of segs backslash] by (simp add: D_def)
  have joined: "join_with [backslash] [D, B, t] = J"
    using join_with_append [of segs "[B, t]" "[backslash]"] by (simp add: D J_def B_def)
  have nosep: "\<not> is_path_separator dr" using device_root_not_sep [OF dr] .
  have jt: "join_with [backslash] (segs @ [B, t]) = join_with [backslash] (segs @ [B]) @ [backslash] @ t"
    using join_with_append [of "segs @ [B]" "[t]" "[backslash]"] by simp
  have lastJ: "last J = last t" using tne by (simp add: J_def jt)
  have lt: "\<not> is_path_separator (last t)"
    using win32_plain_no_sep [OF t] tne by simp
  have split: "split_seps (drop 3 J) = segs @ [''..'', ''..'', ''..'', ''bin'', [], t]"
  proof -
    have m: "map sep_to_slash segs = segs"
      using segs by (intro map_idI) (auto simp: sep_to_slash_plain)
    have mt: "sep_to_slash t = t" using t by (rule sep_to_slash_plain)
    have mB: "sep_to_slash B = B" by (simp add: B_def sep_to_slash_def is_path_separator_def)
    have ns: "\<forall>s \<in> set segs. slash \<notin> set s" "slash \<notin> set t"
      using segs t by (auto simp: win32_plain_segment_def plain_segment_def)
    have "split_on_char slash (join_with ''/'' (segs @ [B, t])) = segs @ [''..'', ''..'', ''..'', ''bin'', [], t]"
    proof (cases "segs = []")
      case True
      then show ?thesis using ns(2) by (simp add: B_def split_on_char_no_sep Let_def)
    next
      case False
      have "join_with ''/'' (segs @ [B, t]) = join_with ''/'' segs @ slash # B @ slash # t"
        using join_with_append [of segs "[B, t]" "''/''"] False by simp
      moreover have "split_on_char slash (join_with ''/'' segs) = segs"
        using split_on_char_join [OF False] ns(1) by simp
      ultimately show ?thesis
        using ns(2) by (simp add: split_on_char_append B_def split_on_char_no_sep Let_def)
    qed
    then show ?thesis
      by (simp add: J_def split_seps_eq sep_to_slash_join m mt mB)
  qed
  have norm: "normalize_segments False [] (split_seps (drop 3 J)) = take (length segs - 3) segs @ [''bin'', t]"
  proof -
    have "\<forall>s \<in> set segs. plain_segment s" "plain_segment t"
      using segs t by (auto simp: win32_plain_segment_def)
    from normalize_bin_dir [OF this] show ?thesis by (simp add: split)
  qed
  have root: "win32_normalize_root J = Inr (3, Some [dr, colon], True)"
    using dr nosep by (simp add: win32_normalize_root_def J_def)
  have "win32_normalize J = [dr, colon] @ backslash # join_with [backslash] (take (length segs - 3) segs @ [''bin'', t])"
  proof -
    have len: "3 < length J" using tne by (simp add: J_def jt)
    have jne: "J \<noteq> []" using len by auto
    then have "J ! (length J - 1) = last J" by (rule last_conv_nth [symmetric])
    then show ?thesis
      using len jne root norm lastJ lt
      by (simp add: win32_normalize_def normalize_string_win32_def Let_def)
  qed
  moreover have "win32_join [D, B, t] = win32_normalize J"
  proof -
    have "skip_while is_path_separator J 0 = 0"
      using nosep by (intro skip_while_first) (simp_all add: J_def)
    then show ?thesis
      using tne nosep joined by (simp add: win32_join_def D_def B_def Let_def)
  qed
  ultimately show ?thesis
    using concat_map_Cons_join [of "take (length segs - 3) segs @ [''bin'', t]" backslash]
    by (simp add: D_def B_def)
qed

subsection \<open>Reading the scans of win32 through POSIX separators\<close>

lemma enumerate_sep_to_slash:
  "enumerate k (sep_to_slash s) = map (apsnd (\<lambda>c. if is_path_separator c then slash else c)) (enumerate k s)"
  by (induction s arbitrary: k) (simp_all add: sep_to_slash_def)

lemma sep_to_slash_drop: "sep_to_slash (drop k s) = drop k (sep_to_slash s)"
  by (simp add: sep_to_slash_def drop_map)

lemma sep_char_slash: "(if is_path_separator c then slash else c) = slash \<longleftrightarrow> is_path_separator c"
  by (auto simp: is_path_separator_def)

lemma parse_scan_win32_eq:
  "parse_scan_win32 st xs = parse_scan st (map (apsnd (\<lambda>c. if is_path_separator c then slash else c)) xs)"
proof (induction xs arbitrary: st)
  case (Cons x xs)
  obtain i c where x: "x = (i, c)" by (cases x)
  show ?case using Cons sep_char_slash [of c] by (cases "is_path_separator c") (simp_all add: x)
qed simp

lemma parse_char_step_start_part:
  "parse_char_step (st\<lparr>start_part := k\<rparr>) i c = (parse_char_step st i c)\<lparr>start_part := k\<rparr>"
  "start_part (parse_char_step st i c) = start_part st"
  by (simp_all add: parse_char_step_def Let_def)

lemma parse_scan_start_part:
  "start_part st = 0 \<Longrightarrow> parse_scan (st\<lparr>start_part := k\<rparr>) xs =
     (if start_part (parse_scan st xs) = 0 then (parse_scan st xs)\<lparr>start_part := k\<rparr> else parse_scan st xs)"
proof (induction xs arbitrary: st)
  case (Cons x xs)
  obtain i c where x: "x = (i, c)" by (cases x)
  show ?case using Cons by (simp add: x parse_char_step_start_part)
qed simp

lemma parse_scan_offset_component:
  assumes rest: "rest = u @ b @ replicate t slash" and b: "b \<noteq> []" "slash \<notin> set b"
    and u: "u = [] \<or> last u = slash"
  shows "parse_scan (parse_vars_init\<lparr>start_part := r\<rparr>) (rev (enumerate r rest)) =
    (parse_block_vars (r + length u) b)\<lparr>start_part := r + length u\<rparr>"
proof -
  have shape: "parse_scan parse_vars_init (rev (enumerate r rest)) =
      parse_scan (parse_block_vars (r + length u) b) (rev (enumerate r u))"
    using parse_scan_shape [OF b(2,1), of "r + length u" t "rev (enumerate r u)"]
    by (simp add: rest rev_enumerate_component)
  have "parse_scan (parse_block_vars (r + length u) b) (rev (enumerate r u)) =
      (if u = [] then parse_block_vars r b
       else (parse_block_vars (r + length u) b)\<lparr>start_part := r + length u\<rparr>)"
    using u by (rule component_prefix_cases) (simp_all add: rev_enumerate_prefix_slash parse_block_vars_def)
  then show ?thesis
    using parse_scan_start_part [of parse_vars_init r] shape
    by (auto simp: parse_block_vars_def parse_vars_init_def)
qed

lemma parse_scan_offset_slashes:
  "parse_scan (parse_vars_init\<lparr>start_part := r\<rparr>) (rev (enumerate r (replicate t slash))) =
     parse_vars_init\<lparr>start_part := r\<rparr>"
proof -
  have "\<forall>x \<in> set (rev (enumerate r (replicate t slash))). snd x = slash"
    by (auto dest: enumerate_replicate_snd)
  then show ?thesis
    using parse_scan_slashes [of "rev (enumerate r (replicate t slash))" "parse_vars_init\<lparr>start_part := r\<rparr>" "[]"]
    by (simp add: parse_vars_init_def)
qed

lemma js_slice_sub:
  assumes "js_slice p K (K + length b) = b" "a \<le> c" "c \<le> length b"
  shows "js_slice p (K + a) (K + c) = take (c - a) (drop a b)"
proof -
  have "drop a b = take (length b - a) (drop (K + a) p)"
    using assms(1) by (metis js_slice_def add_diff_cancel_left' drop_drop drop_take add.commute)
  then show ?thesis using assms(2,3) by (simp add: js_slice_def min_def)
qed

lemma win32_parse_result_split:
  assumes "end_pos st \<noteq> -1" "\<not> (start_dot st = -1 \<or> pre_dot_state st = 0 \<or>
      (pre_dot_state st = 1 \<and> start_dot st = end_pos st - 1 \<and> start_dot st = int (start_part st) + 1))"
  shows "p_base (win32_parse_result p r ret st) = js_slice p (start_part st) (nat (end_pos st))"
    "p_name (win32_parse_result p r ret st) = js_slice p (start_part st) (nat (start_dot st))"
    "p_ext (win32_parse_result p r ret st) = js_slice p (nat (start_dot st)) (nat (end_pos st))"
proof -
  have e: "(end_pos st \<noteq> -1) = True" using assms(1) by simp
  have c: "(start_dot st = -1 \<or> pre_dot_state st = 0 \<or>
      (pre_dot_state st = 1 \<and> start_dot st = end_pos st - 1 \<and> start_dot st = int (start_part st) + 1)) = False"
    using assms(2) by blast
  show "p_base (win32_parse_result p r ret st) = js_slice p (start_part st) (nat (end_pos st))"
    "p_name (win32_parse_result p r ret st) = js_slice p (start_part st) (nat (start_dot st))"
    "p_ext (win32_parse_result p r ret st) = js_slice p (nat (start_dot st)) (nat (end_pos st))"
    unfolding win32_parse_result_def Let_def e c if_True if_False by simp_all
qed

lemma win32_block_fields:
  assumes b: "b \<noteq> []" and sl: "js_slice p K (K + length b) = b" and e: "p_ext ret = []"
  defines "st \<equiv> (parse_block_vars K b)\<lparr>start_part := K\<rparr>"
  shows "p_base (win32_parse_result p r ret st) = b \<and> p_ext (win32_parse_result p r ret st) = ext_plain b \<and>
    p_base (win32_parse_result p r ret st) =
      p_name (win32_parse_result p r ret st) @ p_ext (win32_parse_result p r ret st)"
proof (cases "last_dot b")
  case None
  then show ?thesis using b sl e
    by (simp add: st_def win32_parse_result_def parse_block_vars_def parse_vars_init_def ext_plain_def Let_def
        del: of_nat_add)
next
  case (Some d)
  note D = last_dot_Some [OF Some]
  have sub: "js_slice p (K + a) (K + c) = take (c - a) (drop a b)" if "a \<le> c" "c \<le> length b" for a c
    using js_slice_sub [OF sl that] .
  have name: "js_slice p K (K + d) = take d b" using sub [of 0 d] D by simp
  have ext: "js_slice p (K + d) (K + length b) = drop d b" using sub [of d "length b"] D by simp
  have cond: "(hd b = dot \<and> d = length b - 1 \<and> d = 1) \<longleftrightarrow> b = ''..''"
  proof
    assume c: "hd b = dot \<and> d = length b - 1 \<and> d = 1"
    then have "length b = 2" using D by linarith
    moreover have "b ! 1 = dot"
    proof -
      have "b ! d = dot" using D by blast
      moreover have "d = 1" using c by blast
      ultimately show ?thesis by simp
    qed
    ultimately show "b = ''..''" using two_dots [of b] c by simp
  next
    assume "b = ''..''"
    then show "hd b = dot \<and> d = length b - 1 \<and> d = 1" using Some by simp
  qed
  show ?thesis
  proof (cases "d = 0 \<or> b = ''..''")
    case True
    then have "d = 0 \<or> (hd b = dot \<and> d = length b - 1 \<and> d = 1)" using cond by blast
    then show ?thesis using Some True b sl D e
      by (auto simp: st_def win32_parse_result_def parse_block_vars_def parse_vars_init_def ext_plain_def
          Let_def simp del: of_nat_add)
  next
    case False
    have nc: "\<not> (hd b = dot \<and> d = length b - 1 \<and> d = 1)" "d \<noteq> 0"
      using False cond by simp_all
    have f: "start_dot st = int (K + d)" "end_pos st = int (K + length b)"
        "pre_dot_state st = (if hd b = dot then 1 else -1)" "start_part st = K"
      using Some nc(2) by (simp_all add: st_def parse_block_vars_def parse_vars_init_def)
    have c: "\<not> (start_dot st = -1 \<or> pre_dot_state st = 0 \<or>
        (pre_dot_state st = 1 \<and> start_dot st = end_pos st - 1 \<and> start_dot st = int (start_part st) + 1))"
      using f nc D by auto
    have "end_pos st \<noteq> -1" using f by simp
    note fields = win32_parse_result_split [OF this c, of p r ret, unfolded f nat_int]
    show ?thesis
      unfolding fields name ext sl using Some False by (simp add: ext_plain_def)
  qed
qed

lemma js_slice_sep_to_slash: "js_slice (sep_to_slash p) a c = sep_to_slash (js_slice p a c)"
  by (simp add: js_slice_def sep_to_slash_def take_map drop_map)

lemma sep_to_slash_no_slash: "slash \<notin> set (sep_to_slash x) \<Longrightarrow> sep_to_slash x = x"
  by (rule sep_to_slash_no_sep) (auto simp: sep_to_slash_def)

lemma parse_scan_win32_sep_to_slash:
  "parse_scan_win32 st (rev (enumerate r (drop r p))) = parse_scan st (rev (enumerate r (drop r (sep_to_slash p))))"
  by (simp add: parse_scan_win32_eq enumerate_sep_to_slash sep_to_slash_drop [symmetric] rev_map)

lemma win32_component_slice:
  assumes "drop r (sep_to_slash p) = U @ B @ w" "B \<noteq> []" "slash \<notin> set B"
  shows "js_slice p (r + length U) (r + length U + length B) = B"
proof -
  let ?q = "sep_to_slash p"
  have "r < length ?q" using assms(1,2) by (cases "r < length ?q") auto
  then have "?q = (take r ?q @ U) @ B @ w" "length (take r ?q @ U) = r + length U"
    using assms(1) append_take_drop_id [of r ?q] by simp_all
  then have "js_slice ?q (r + length U) (r + length U + length B) = B"
    by (metis js_slice_append_mid)
  then have "sep_to_slash (js_slice p (r + length U) (r + length U + length B)) = B"
    by (simp add: js_slice_sep_to_slash)
  with assms(3) show ?thesis using sep_to_slash_no_slash by metis
qed

lemma win32_parse_general:
  assumes "2 \<le> length p" "\<not> win32_bare_drive p"
  shows "p_base (win32_parse p) = win32_last_component p \<and>
    p_ext (win32_parse p) = ext_plain (win32_last_component p) \<and>
    p_base (win32_parse p) = p_name (win32_parse p) @ p_ext (win32_parse p)"
proof -
  define r where "r = win32_root_end p"
  define rest where "rest = drop r (sep_to_slash p)"
  define U where "U = component_prefix rest"
  define B where "B = last_component rest"
  define T where "T = trailing_slashes rest"
  define ret0 :: parsed_path where "ret0 = (if 0 < r
      then \<lparr>p_root = js_slice p 0 r, p_dir = [], p_base = [], p_ext = [], p_name = []\<rparr>
      else \<lparr>p_root = [], p_dir = [], p_base = [], p_ext = [], p_name = []\<rparr>)"
  have dec: "rest = U @ B @ replicate T slash"
    unfolding U_def B_def T_def by (rule path_decomposition)
  have wlc: "win32_last_component p = B"
    using assms by (simp add: win32_last_component_def win32_root_length_def B_def rest_def r_def)
  have ne: "p \<noteq> []" "length p \<noteq> 1" using assms(1) by auto
  have wp: "win32_parse p = win32_parse_result p r ret0
      (parse_scan (parse_vars_init\<lparr>start_part := r\<rparr>) (rev (enumerate r rest)))"
    using assms(2) ne by (simp add: win32_parse_def Let_def r_def ret0_def rest_def parse_scan_win32_sep_to_slash)
  have e0: "p_base ret0 = [] \<and> p_ext ret0 = [] \<and> p_name ret0 = []" by (simp add: ret0_def)
  show ?thesis
  proof (cases "B = []")
    case True
    have "parse_scan (parse_vars_init\<lparr>start_part := r\<rparr>) (rev (enumerate r rest)) =
        parse_vars_init\<lparr>start_part := r\<rparr>"
      using dec True last_component_Nil [of rest] parse_scan_offset_slashes [of r T]
      by (simp add: U_def B_def)
    then show ?thesis
      using True e0 wlc by (simp add: wp win32_parse_result_def parse_vars_init_def ext_plain_def)
  next
    case False
    have sl: "js_slice p (r + length U) (r + length U + length B) = B"
      using win32_component_slice [OF dec [unfolded rest_def] False
          last_component_no_slash [of rest, folded B_def]] .
    have "parse_scan (parse_vars_init\<lparr>start_part := r\<rparr>) (rev (enumerate r rest)) =
        (parse_block_vars (r + length U) B)\<lparr>start_part := r + length U\<rparr>"
      by (rule parse_scan_offset_component [OF dec False last_component_no_slash [of rest, folded B_def]
          component_prefix_ends_slash [of rest, folded U_def]])
    then have st: "win32_parse p = win32_parse_result p r ret0
        ((parse_block_vars (r + length U) B)\<lparr>start_part := r + length U\<rparr>)"
      by (simp add: wp)
    from win32_block_fields [OF False sl conjunct1 [OF conjunct2 [OF e0]], of r]
    show ?thesis unfolding st wlc .
  qed
qed

lemma win32_parse_fields:
  "p_base (win32_parse p) = win32_last_component p \<and>
   p_ext (win32_parse p) = ext_plain (win32_last_component p) \<and>
   p_base (win32_parse p) = p_name (win32_parse p) @ p_ext (win32_parse p)"
proof (cases "2 \<le> length p \<and> \<not> win32_bare_drive p")
  case True
  then show ?thesis using win32_parse_general by blast
next
  case False
  consider (short) "length p < 2" | (bare) "2 \<le> length p" "win32_bare_drive p" using False by linarith
  then show ?thesis
  proof cases
    case short
    then consider "p = []" | c where "p = [c]" by (cases p) auto
    then show ?thesis
    proof cases
      case 1
      then show ?thesis
        by (simp add: win32_parse_def win32_last_component_def win32_root_length_def last_component_def
            sep_to_slash_def ext_plain_def)
    next
      case (2 c)
      then show ?thesis
        by (cases "is_path_separator c")
          (auto simp: win32_parse_def win32_last_component_def win32_root_length_def last_component_def
            sep_to_slash_def ext_plain_def is_path_separator_def)
    qed
  next
    case bare
    moreover have "p \<noteq> []" "length p \<noteq> 1" using bare(1) by auto
    ultimately show ?thesis
      by (simp add: win32_parse_def win32_last_component_def win32_root_length_def last_component_def
          ext_plain_def sep_to_slash_def Let_def)
  qed
qed

subsection \<open>path.win32.basename against the last component\<close>

lemma basename_scan_win32_eq:
  "basename_scan_win32 st xs = basename_scan st (map (apsnd (\<lambda>c. if is_path_separator c then slash else c)) xs)"
proof (induction xs arbitrary: st)
  case (Cons x xs)
  obtain i c where x: "x = (i, c)" by (cases x)
  show ?case using Cons sep_char_slash [of c] by (cases "is_path_separator c") (simp_all add: x)
qed simp

lemma basename_suffix_scan_win32_eq:
  "basename_suffix_scan_win32 sfx st xs =
     basename_suffix_scan sfx st (map (apsnd (\<lambda>c. if is_path_separator c then slash else c)) xs)"
proof (induction xs arbitrary: st)
  case (Cons x xs)
  obtain i c where x: "x = (i, c)" by (cases x)
  show ?case using Cons sep_char_slash [of c] by (cases "is_path_separator c") (simp_all add: x)
qed simp

lemma skip_while_stop:
  assumes "skip_while P p j < length p"
  shows "\<not> P (p ! skip_while P p j)"
proof -
  let ?L = "length (takeWhile P (drop j p))"
  have lt: "?L < length (drop j p)" using assms by (simp add: skip_while_def)
  have "\<not> P (drop j p ! ?L)" using nth_length_takeWhile [OF lt] .
  moreover have "drop j p ! ?L = p ! (j + ?L)" using lt by simp
  ultimately show ?thesis by (simp add: skip_while_def)
qed

lemma skip_while_le: "j \<le> length p \<Longrightarrow> skip_while P p j \<le> length p"
proof -
  assume "j \<le> length p"
  moreover have "length (takeWhile P (drop j p)) \<le> length p - j"
    using length_takeWhile_le [of P "drop j p"] by simp
  ultimately show ?thesis by (simp add: skip_while_def)
qed

text \<open>
  The start of \<open>basename\<close>'s scan lies at or before the root of \<open>parse\<close>, and
  the characters between them end with a separator.
\<close>

lemma win32_root_sep:
  assumes "2 \<le> length p" "\<not> win32_bare_drive p" "win32_root_end p < length p"
  defines "S \<equiv> (if is_windows_device_root (p ! 0) \<and> p ! 1 = colon then 2 else 0)"
  shows "S \<le> win32_root_end p \<and>
    (S < win32_root_end p \<longrightarrow> is_path_separator (p ! (win32_root_end p - 1)))"
proof (cases "is_path_separator (p ! 0)")
  case True
  then have S: "S = 0" using device_root_not_sep by (auto simp: S_def)
  show ?thesis
  proof (cases "is_path_separator (p ! 1) \<and> unc_root p \<noteq> None")
    case False
    then have "win32_root_end p = 1"
      using True by (cases "unc_root p") (auto simp: win32_root_end_def)
    then show ?thesis using True S by simp
  next
    case U: True
    then obtain j1 j2 j3 where u: "unc_root p = Some (j1, j2, j3)" by auto
    have j2: "j2 < length p" and j3: "j3 = skip_while (\<lambda>c. \<not> is_path_separator c) p j2"
      using u by (auto simp: unc_root_def Let_def split: if_splits)
    have "j3 \<le> length p" using skip_while_le [of j2 p] j2 j3 by simp
    moreover have "j3 \<noteq> length p"
      using assms(3) U True u by (auto simp: win32_root_end_def)
    ultimately have lt: "j3 < length p" by simp
    then have sep3: "is_path_separator (p ! j3)" using skip_while_stop [of _ p j2] j3 by auto
    show ?thesis using True U u S lt sep3 by (auto simp: win32_root_end_def)
  qed
next
  case False
  then show ?thesis by (auto simp: S_def win32_root_end_def)
qed

lemma basename_scan_win32_sep_to_slash:
  "basename_scan_win32 st (rev (enumerate k (drop k p))) =
     basename_scan st (rev (enumerate k (drop k (sep_to_slash p))))"
  by (simp add: basename_scan_win32_eq enumerate_sep_to_slash sep_to_slash_drop [symmetric] rev_map)

lemma basename_suffix_scan_win32_sep_to_slash:
  "basename_suffix_scan_win32 sfx st (rev (enumerate k (drop k p))) =
     basename_suffix_scan sfx st (rev (enumerate k (drop k (sep_to_slash p))))"
  by (simp add: basename_suffix_scan_win32_eq enumerate_sep_to_slash sep_to_slash_drop [symmetric] rev_map)

lemma win32_basename_Some_Nil: "win32_basename p (Some []) = win32_basename p None"
  by (simp add: win32_basename_def Let_def)

lemma length_win32_last_component: "length (win32_last_component p) \<le> length p"
proof -
  have "length (last_component s) \<le> length s" for s
    unfolding last_component_def
    by (metis length_rev length_takeWhile_le length_dropWhile_le order_trans)
  from this [of "drop (win32_root_length p) (sep_to_slash p)"] show ?thesis
    by (simp add: win32_last_component_def sep_to_slash_def)
qed

lemma win32_basename_decomp:
  assumes "2 \<le> length p" "\<not> win32_bare_drive p" "win32_last_component p \<noteq> []"
  defines "S \<equiv> (if is_windows_device_root (p ! 0) \<and> p ! 1 = colon then 2 else 0)"
  obtains V T where "drop S (sep_to_slash p) = V @ win32_last_component p @ replicate T slash"
    "V = [] \<or> last V = slash"
    "js_slice p (S + length V) (S + length V + length (win32_last_component p)) = win32_last_component p"
proof -
  let ?q = "sep_to_slash p"
  define r where "r = win32_root_end p"
  define rest where "rest = drop r ?q"
  define L where "L = win32_last_component p"
  define U where "U = component_prefix rest"
  define T where "T = trailing_slashes rest"
  have L: "L = last_component rest"
    using assms(1,2) by (simp add: L_def win32_last_component_def win32_root_length_def rest_def r_def)
  have dec: "rest = U @ L @ replicate T slash"
    unfolding U_def L T_def by (rule path_decomposition)
  have Lne: "L \<noteq> []" using assms(3) by (simp add: L_def)
  have lq: "length ?q = length p" by (simp add: sep_to_slash_def)
  have rlt: "r < length p" using dec Lne lq by (cases "r < length p") (auto simp: rest_def)
  have root: "S \<le> r" "S < r \<Longrightarrow> is_path_separator (p ! (r - 1))"
    using win32_root_sep [OF assms(1,2) rlt [unfolded r_def]] by (simp_all add: S_def r_def)
  define W where "W = take (r - S) (drop S ?q)"
  have dS: "drop S ?q = W @ rest"
    using root(1) append_take_drop_id [of "r - S" "drop S ?q"] by (simp add: W_def rest_def)
  have lW: "length W = r - S" using rlt lq root(1) by (simp add: W_def)
  have V: "W @ U = [] \<or> last (W @ U) = slash"
  proof (cases "U = []")
    case False
    then show ?thesis using component_prefix_ends_slash [of rest] by (simp add: U_def)
  next
    case True
    show ?thesis
    proof (cases "S < r")
      case False
      then show ?thesis using True root(1) by (simp add: W_def)
    next
      case lt: True
      have Wne: "W \<noteq> []" using lW lt by auto
      have "last W = W ! (r - S - 1)" using last_conv_nth [OF Wne] lW by simp
      also have "\<dots> = drop S ?q ! (r - S - 1)" using lt by (simp add: W_def)
      also have "\<dots> = ?q ! (r - 1)" using lt rlt lq by simp
      finally have "last W = ?q ! (r - 1)" .
      then show ?thesis using True root(2) [OF lt] rlt by (simp add: sep_to_slash_def)
    qed
  qed
  have sl: "js_slice p (r + length U) (r + length U + length L) = L"
    using win32_component_slice [OF dec [unfolded rest_def] Lne] last_component_no_slash L by simp
  show ?thesis
  proof (rule that [of "W @ U" T])
    show "drop S ?q = (W @ U) @ win32_last_component p @ replicate T slash"
      using dS dec by (simp add: L_def)
    show "W @ U = [] \<or> last (W @ U) = slash" by (rule V)
    have eq: "S + length (W @ U) = r + length U" using lW root(1) by simp
    show "js_slice p (S + length (W @ U)) (S + length (W @ U) + length (win32_last_component p)) =
        win32_last_component p"
      unfolding eq using sl by (simp add: L_def)
  qed
qed

lemma win32_basename_plain:
  assumes "2 \<le> length p" "\<not> win32_bare_drive p" "win32_last_component p \<noteq> []"
  shows "win32_basename p None = win32_last_component p"
proof -
  define S where "S = (if is_windows_device_root (p ! 0) \<and> p ! 1 = colon then 2 else (0::nat))"
  obtain V T where d: "drop S (sep_to_slash p) = V @ win32_last_component p @ replicate T slash"
      and V: "V = [] \<or> last V = slash"
      and sl: "js_slice p (S + length V) (S + length V + length (win32_last_component p)) = win32_last_component p"
    using win32_basename_decomp [OF assms] unfolding S_def by blast
  have lc: "slash \<notin> set (win32_last_component p)"
    by (simp add: win32_last_component_def last_component_no_slash)
  have "basename_scan (basename_vars_init\<lparr>bn_start := S\<rparr>) (rev (enumerate S (drop S (sep_to_slash p)))) =
      basename_vars_init\<lparr>bn_matched := False, bn_end := int (S + length V + length (win32_last_component p)),
        bn_start := S + length V\<rparr>"
    by (rule basename_scan_component [OF d assms(3) lc V])
  moreover have start: "(if 2 \<le> length p \<and> is_windows_device_root (p ! 0) \<and> p ! 1 = colon then 2 else 0) = S"
    using assms(1) by (simp add: S_def)
  ultimately show ?thesis
    using sl unfolding win32_basename_def Let_def start
    by (simp add: basename_scan_win32_sep_to_slash basename_vars_init_def del: of_nat_add)
qed

lemma win32_basename_suffix:
  assumes "2 \<le> length p" "\<not> win32_bare_drive p" "win32_last_component p = n @ sfx" "n \<noteq> []" "sfx \<noteq> []"
  shows "win32_basename p (Some sfx) = n"
proof -
  define S where "S = (if is_windows_device_root (p ! 0) \<and> p ! 1 = colon then 2 else (0::nat))"
  have Lne: "win32_last_component p \<noteq> []" using assms(3,4) by simp
  obtain V T where d: "drop S (sep_to_slash p) = V @ win32_last_component p @ replicate T slash"
      and V: "V = [] \<or> last V = slash"
      and sl: "js_slice p (S + length V) (S + length V + length (win32_last_component p)) = win32_last_component p"
    using win32_basename_decomp [OF assms(1,2) Lne] unfolding S_def by blast
  have ns: "slash \<notin> set (n @ sfx)"
    using assms(3) by (metis win32_last_component_def last_component_no_slash)
  have d': "drop S (sep_to_slash p) = V @ n @ sfx @ replicate T slash" using d assms(3) by simp
  note scan = basename_suffix_scan_component [OF d' assms(4,5) ns V, of S]
  have guard: "0 < length sfx \<and> length sfx \<le> length p \<and> sfx \<noteq> p"
    using assms(3,4,5) length_win32_last_component [of p] by auto
  have ne: "int (S + length V) \<noteq> int (S + length V + length n)" using assms(4) by simp
  have "js_slice p (S + length V + 0) (S + length V + length n) = take (length n - 0) (drop 0 (n @ sfx))"
    by (rule js_slice_sub [OF sl [unfolded assms(3)]]) simp_all
  then have "js_slice p (S + length V) (S + length V + length n) = n" by simp
  moreover have start: "(if 2 \<le> length p \<and> is_windows_device_root (p ! 0) \<and> p ! 1 = colon then 2 else 0) = S"
    using assms(1) by (simp add: S_def)
  ultimately show ?thesis
    using guard scan ne unfolding win32_basename_def Let_def start
    by (simp add: basename_suffix_scan_win32_sep_to_slash basename_vars_init_def del: of_nat_add)
qed

end
