(* ===== verification/Path_Module.thy ===== *)
theory Path_Module
  imports Node_Path_Win32
begin

text \<open>
  Line 3 of \<^verbatim>\<open>src/lib/utilities.ts\<close>, \<^verbatim>\<open>import { basename, join, parse } from 'path'\<close>,
  binds Node's \<^verbatim>\<open>path\<close> module, which is \<^verbatim>\<open>path.win32\<close> when the process runs on
  Windows and \<^verbatim>\<open>path.posix\<close> everywhere else. The platform is the value
  \<open>os.platform()\<close> returns (line 2, called on line 14), the same
  \<^verbatim>\<open>process.platform\<close> that Node's \<^verbatim>\<open>path\<close> consults. A module is a record
  of the three functions the code imports.
\<close>

text \<open>The values \<open>os.platform()\<close> returns.\<close>

datatype os_platform =
  Aix | Android | Darwin | Freebsd | Haiku | Linux | Openbsd | Sunos | Win32 | Cygwin | Netbsd

fun platform_tag :: "os_platform \<Rightarrow> js_string" where
  "platform_tag Aix = ''aix''"
| "platform_tag Android = ''android''"
| "platform_tag Darwin = ''darwin''"
| "platform_tag Freebsd = ''freebsd''"
| "platform_tag Haiku = ''haiku''"
| "platform_tag Linux = ''linux''"
| "platform_tag Openbsd = ''openbsd''"
| "platform_tag Sunos = ''sunos''"
| "platform_tag Win32 = ''win32''"
| "platform_tag Cygwin = ''cygwin''"
| "platform_tag Netbsd = ''netbsd''"

record path_module =
  pm_parse :: "js_string \<Rightarrow> parsed_path"
  pm_basename :: "js_string \<Rightarrow> js_string option \<Rightarrow> js_string"
  pm_join :: "js_string list \<Rightarrow> js_string"

definition posix_path :: path_module where
  "posix_path = \<lparr>pm_parse = node_path_parse, pm_basename = node_basename, pm_join = node_join\<rparr>"

definition win32_path :: path_module where
  "win32_path = \<lparr>pm_parse = win32_parse, pm_basename = win32_basename, pm_join = win32_join\<rparr>"

definition path_module_for :: "os_platform \<Rightarrow> path_module" where
  "path_module_for plat = (if plat = Win32 then win32_path else posix_path)"

subsection \<open>Lemmas\<close>

lemma posix_path_simps [simp]:
  "pm_parse posix_path = node_path_parse" "pm_basename posix_path = node_basename"
  "pm_join posix_path = node_join"
  by (simp_all add: posix_path_def)

lemma win32_path_simps [simp]:
  "pm_parse win32_path = win32_parse" "pm_basename win32_path = win32_basename"
  "pm_join win32_path = win32_join"
  by (simp_all add: win32_path_def)

lemma path_module_for_simps [simp]:
  "path_module_for Win32 = win32_path"
  "plat \<noteq> Win32 \<Longrightarrow> path_module_for plat = posix_path"
  by (simp_all add: path_module_for_def)

lemma platform_tag_linux_iff: "platform_tag p = ''linux'' \<longleftrightarrow> p = Linux"
  by (cases p) simp_all

end
