(* ===== verification/File_Names.thy ===== *)
theory File_Names
  imports Path_Module
begin

text \<open>
  \<open>getFileExtension\<close> (line 32 of \<^verbatim>\<open>src/lib/utilities.ts\<close>) returns the
  \<open>ext\<close> field of \<open>path.parse\<close>, and \<open>getFileName\<close> (lines 39--40) strips that
  extension with \<open>path.basename(filepath, ext)\<close>. Through the refinement lemmas of
  \<open>Node_Path\<close> both read on the last component of the path: the extension is the
  part from its last dot (empty without a dot, for a name that starts with its only
  dot, and for \<open>..\<close> below a directory), the name is the rest, and the two
  together give the base name back for every path.
\<close>

definition getFileExtension :: "path_module \<Rightarrow> js_string \<Rightarrow> js_string" where
  "getFileExtension path filepath = p_ext (pm_parse path filepath)"

definition getFileName :: "path_module \<Rightarrow> js_string \<Rightarrow> js_string" where
  "getFileName path filepath = pm_basename path filepath (Some (getFileExtension path filepath))"

subsection \<open>Lemmas\<close>

lemma file_parts:
  obtains (no_ext) "getFileExtension posix_path p = []" "getFileName posix_path p = last_component p"
  | (ext) d where "last_dot (last_component p) = Some d" "0 < d"
      "getFileExtension posix_path p = drop d (last_component p)"
      "getFileName posix_path p = take d (last_component p)"
proof (cases "ext_of p = []")
  case True
  then show ?thesis
    using no_ext node_basename_Some_Nil [of p] node_basename_plain [of p]
    by (simp add: getFileName_def getFileExtension_def parse_ext_refines)
next
  case False
  let ?b = "last_component p"
  from False obtain d where d: "last_dot ?b = Some d" "0 < d" "ext_of p = drop d ?b"
    by (auto simp: ext_of_def Let_def split: option.splits if_splits)
  then have lt: "d < length ?b" using last_dot_Some by blast
  then have "?b = take d ?b @ drop d ?b" "take d ?b \<noteq> []" "drop d ?b \<noteq> []"
    using d(2) lt by auto
  then have "node_basename p (Some (drop d ?b)) = take d ?b"
    using node_basename_suffix by blast
  with d show ?thesis
    using ext by (simp add: getFileName_def getFileExtension_def parse_ext_refines)
qed

lemma last_component_drop_dot:
  assumes "last_dot b = Some d"
  shows "drop d b = dot # drop (Suc d) b" "dot \<notin> set (drop (Suc d) b)"
  using last_dot_Some [OF assms] by (metis Cons_nth_drop_Suc) (use last_dot_Some [OF assms] in simp)

text \<open>
  C11. \<open>getFileExtension\<close> implements the abstract extension \<open>ext_of\<close>: the last
  component of the path from its last dot on, empty when the component has no dot,
  when its only dot is its first character, and for \<open>..\<close> under a directory.
\<close>

theorem getFileExtension_refines: "getFileExtension posix_path p = ext_of p"
  by (simp add: getFileExtension_def parse_ext_refines)

text \<open>
  C12. Round trip: for every path, the name followed by the extension is the base
  name that \<open>path.basename\<close> returns.
\<close>

theorem getFileName_roundtrip:
  "getFileName posix_path p @ getFileExtension posix_path p = node_basename p None"
proof (cases p rule: file_parts)
  case no_ext
  then show ?thesis by (simp add: node_basename_plain)
next
  case (ext d)
  then show ?thesis by (simp add: node_basename_plain)
qed

text \<open>
  C13. On Windows, \<open>getFileExtension\<close> (\<^verbatim>\<open>path.win32.parse\<close>) implements the
  abstract extension \<open>ext_plain\<close> of the last component after the root (a drive
  letter with its colon and a separator, if any, or a UNC share), both slash and
  backslash separating components: from its last dot on, empty without a dot, for a leading only dot,
  and for \<open>..\<close>.
\<close>

theorem getFileExtension_win32_refines:
  "getFileExtension win32_path p = ext_plain (win32_last_component p)"
  by (simp add: getFileExtension_def win32_parse_fields)

text \<open>
  C14. Round trip on Windows: for every path, \<open>getFileName\<close> followed by
  \<open>getFileExtension\<close> is the base name that \<^verbatim>\<open>path.win32.basename\<close> returns.
\<close>

theorem getFileName_win32_roundtrip:
  "getFileName win32_path p @ getFileExtension win32_path p = win32_basename p None"
proof (cases "getFileExtension win32_path p = []")
  case True
  then show ?thesis by (simp add: getFileName_def win32_basename_Some_Nil)
next
  case False
  let ?L = "win32_last_component p"
  have e: "getFileExtension win32_path p = ext_plain ?L"
    by (simp add: getFileExtension_def win32_parse_fields)
  from False e obtain d where d: "last_dot ?L = Some d" "d \<noteq> 0" "ext_plain ?L = drop d ?L"
    by (auto simp: ext_plain_def split: option.splits if_splits)
  have lt: "d < length ?L" using last_dot_Some [OF d(1)] by blast
  have ne: "take d ?L \<noteq> []" "drop d ?L \<noteq> []" using d(2) lt by auto
  have p: "2 \<le> length p \<and> \<not> win32_bare_drive p"
  proof (rule ccontr)
    assume "\<not> (2 \<le> length p \<and> \<not> win32_bare_drive p)"
    then have "length ?L \<le> 1"
      using length_win32_last_component [of p]
      by (auto simp: win32_last_component_def win32_root_length_def last_component_def split: if_splits)
    with lt d(2) show False by simp
  qed
  have "win32_basename p (Some (drop d ?L)) = take d ?L"
    using win32_basename_suffix [of p "take d ?L" "drop d ?L"] p ne by simp
  moreover have "?L \<noteq> []" using lt by auto
  then have "win32_basename p None = ?L" using win32_basename_plain p by blast
  ultimately show ?thesis using e d by (simp add: getFileName_def)
qed

text \<open>
  C15. A non-empty extension starts with its only dot, holds no slash, and leaves a
  non-empty name in front of it.
\<close>

theorem getFileExtension_shape:
  assumes "getFileExtension posix_path p \<noteq> []"
  shows "hd (getFileExtension posix_path p) = dot \<and> dot \<notin> set (tl (getFileExtension posix_path p)) \<and>
         slash \<notin> set (getFileExtension posix_path p) \<and> getFileName posix_path p \<noteq> []"
proof (cases p rule: file_parts)
  case no_ext
  with assms show ?thesis by simp
next
  case (ext d)
  have "slash \<notin> set (drop d (last_component p))"
    using last_component_no_slash [of p] in_set_dropD by fastforce
  moreover have "take d (last_component p) \<noteq> []"
    using ext(1,2) last_dot_Some by fastforce
  ultimately show ?thesis
    using ext last_component_drop_dot [OF ext(1)] by simp
qed

lemma getFileExtension_shape_witness:
  "getFileExtension posix_path ''a/b/file.tar.gz'' = ''.gz'' \<and> getFileName posix_path ''a/b/file.tar.gz'' = ''file.tar''"
proof -
  have e: "getFileExtension posix_path ''a/b/file.tar.gz'' = ''.gz''" by code_simp
  have "getFileName posix_path ''a/b/file.tar.gz'' \<noteq> []"
    using getFileExtension_shape [of "''a/b/file.tar.gz''"] e by simp
  then show ?thesis using e by code_simp
qed

text \<open>
  A base name without a dot has the empty extension and is its own name.
\<close>

theorem getFileName_no_dot:
  assumes "dot \<notin> set (node_basename p None)"
  shows "getFileName posix_path p = node_basename p None \<and> getFileExtension posix_path p = []"
proof (cases p rule: file_parts)
  case no_ext
  then show ?thesis by (simp add: node_basename_plain)
next
  case (ext d)
  with assms show ?thesis
    using last_dot_Some [OF ext(1)] by (auto simp: node_basename_plain dest: nth_mem)
qed

lemma getFileName_no_dot_witness:
  "getFileName posix_path ''/usr/bin/basisu'' = ''basisu'' \<and> getFileExtension posix_path ''/usr/bin/basisu'' = []"
proof -
  have b: "node_basename ''/usr/bin/basisu'' None = ''basisu''" by code_simp
  show ?thesis using getFileName_no_dot [of "''/usr/bin/basisu''"] b by simp
qed

text \<open>
  C16. A base name whose only dot is its first character (a dot-file such as
  \<open>.bashrc\<close>) has the empty extension and keeps its dot in the name, although a
  final dot is there to split at.
\<close>

theorem getFileName_dot_file:
  assumes "node_basename p None = dot # n" "dot \<notin> set n"
  shows "getFileExtension posix_path p = [] \<and> getFileName posix_path p = dot # n"
proof (cases p rule: file_parts)
  case no_ext
  with assms show ?thesis by (simp add: node_basename_plain)
next
  case (ext d)
  have "d < length (dot # n)" "(dot # n) ! d = dot"
    using last_dot_Some [OF ext(1)] assms(1) by (simp_all add: node_basename_plain)
  with assms(2) ext(2) show ?thesis
    by (cases d) (auto dest: nth_mem)
qed

lemma getFileName_dot_file_witness:
  "getFileExtension posix_path ''/home/u/.bashrc'' = [] \<and> getFileName posix_path ''/home/u/.bashrc'' = ''.bashrc''"
proof -
  have b: "node_basename ''/home/u/.bashrc'' None = dot # ''bashrc''" by code_simp
  show ?thesis using getFileName_dot_file [OF b] by simp
qed

text \<open>
  The examples of the specification: \<open>a/b/file.tar.gz\<close> gives the
  extension \<open>.gz\<close> and the name \<open>file.tar\<close>; \<open>noext\<close> gives the empty
  extension.
\<close>

lemma file_examples:
  "getFileExtension posix_path ''a/b/file.tar.gz'' = ''.gz'' \<and> getFileName posix_path ''a/b/file.tar.gz'' = ''file.tar'' \<and>
   getFileExtension posix_path ''noext'' = [] \<and> getFileName posix_path ''noext'' = ''noext''"
  by code_simp

text \<open>
  Paths the specification leaves open: a dot-file has no extension, \<open>/..\<close>
  splits into the name \<open>.\<close> and the extension \<open>.\<close> while \<open>a/..\<close> has no
  extension, and a trailing dot is an extension of its own.
\<close>

lemma file_examples_edge:
  "getFileExtension posix_path ''.bashrc'' = [] \<and> getFileName posix_path ''.bashrc'' = ''.bashrc'' \<and>
   getFileExtension posix_path ''/..'' = ''.'' \<and> getFileName posix_path ''/..'' = ''.'' \<and>
   getFileExtension posix_path ''a/..'' = [] \<and> getFileName posix_path ''a/..'' = ''..'' \<and>
   getFileExtension posix_path ''archive.'' = ''.'' \<and> getFileName posix_path ''archive.'' = ''archive''"
  by code_simp

text \<open>
  The helpers follow the host's \<^verbatim>\<open>path\<close> module: on Windows
  \<open>C:\img\file.tar.gz\<close> splits into \<open>file.tar\<close> and \<open>.gz\<close>, and a backslash
  ends a component, so \<open>dir.v2\file\<close> has no extension there but the extension
  \<open>.v2\file\<close> on POSIX; \<open>/..\<close> has no extension on Windows; a UNC root
  \<open>\\server\share\<close> has the empty base in \<open>parse\<close> but the base name
  \<open>share\<close> in \<open>basename\<close>.
\<close>

lemma file_examples_platforms:
  "getFileExtension win32_path (''C:'' @ [backslash] @ ''img'' @ [backslash] @ ''file.tar.gz'') = ''.gz'' \<and>
   getFileName win32_path (''C:'' @ [backslash] @ ''img'' @ [backslash] @ ''file.tar.gz'') = ''file.tar'' \<and>
   getFileExtension posix_path (''dir.v2'' @ [backslash] @ ''file'') = ''.v2'' @ [backslash] @ ''file'' \<and>
   getFileExtension win32_path (''dir.v2'' @ [backslash] @ ''file'') = [] \<and>
   getFileExtension win32_path ''/..'' = [] \<and> getFileName win32_path ''/..'' = ''..'' \<and>
   p_base (win32_parse ([backslash, backslash] @ ''server'' @ [backslash] @ ''share'')) = [] \<and>
   getFileName win32_path ([backslash, backslash] @ ''server'' @ [backslash] @ ''share'') = ''share''"
  by code_simp

end
