(* ===== verification/JS_Number.thy ===== *)
theory JS_Number
  imports JS_Prelude "HOL-Library.Word" "HOL-Library.Log_Nat"
begin

unbundle bit_operations_syntax

text \<open>
  JavaScript numbers and the number built-ins the CentOS 7 check of
  \<open>getBinaryDirectory\<close> uses (\<^verbatim>\<open>~~parseFloat(release) === 7\<close>, line 19 of
  \<^verbatim>\<open>src/lib/utilities.ts\<close>), modelled from the ECMAScript specification:
  \<^item> \<open>js_number\<close>: a finite double is an exact rational, next to \<open>NaN\<close> and the
    two infinities (the sign of zero plays no part in the code and is not kept);
  \<^item> \<open>parse_float\<close>: \<open>parseFloat\<close>, which skips leading white space, reads the
    longest prefix that is a \<open>StrDecimalLiteral\<close>, and rounds its mathematical
    value to the nearest double (\<open>round_to_double\<close>, ties to even, overflow to an
    infinity at \<open>2^1024\<close>), or gives \<open>NaN\<close> when no prefix is one;
  \<^item> \<open>to_int32\<close>, \<open>js_bitwise_not\<close>: the unary \<open>~\<close> operator, which
    truncates its operand toward zero and wraps it modulo \<open>2^32\<close> (a
    \<open>32 word\<close>), then complements the bits and reads the result as a signed
    integer;
  \<^item> \<open>js_number_strict_eq\<close>: \<open>===\<close> on numbers.
  White space is the part of \<open>StrWhiteSpaceChar\<close> that has an 8-bit code (tab,
  line feed, vertical tab, form feed, carriage return, space, no-break space
  U+00A0); the other separators (U+FEFF, the line and paragraph separators, the
  Unicode spaces) are not characters of the model's strings.
\<close>

datatype js_number = Num rat | NaN | PosInf | NegInf

subsection \<open>Decimal literals\<close>

definition is_decimal_digit :: "char \<Rightarrow> bool" where
  "is_decimal_digit c \<longleftrightarrow> 48 \<le> (of_char c :: nat) \<and> (of_char c :: nat) \<le> 57"

definition digits_value :: "js_string \<Rightarrow> int" where
  "digits_value ds = foldl (\<lambda>n d. 10 * n + (of_char d - 48)) 0 ds"

definition is_str_whitespace :: "char \<Rightarrow> bool" where
  "is_str_whitespace c \<longleftrightarrow> (of_char c :: nat) \<in> set [9, 10, 11, 12, 13, 32, 160]"

text \<open>
  The exponent of an \<open>ExponentPart\<close> at the start of the text: \<open>e\<close> or \<open>E\<close>, an
  optional sign and at least one digit; 0 when the text does not start with one (the
  longest decimal prefix then ends before the \<open>e\<close>).
\<close>

definition exponent_part :: "js_string \<Rightarrow> int" where
  "exponent_part s =
     (case s of
        [] \<Rightarrow> 0
      | e # t \<Rightarrow>
          if e = CHR ''e'' \<or> e = CHR ''E'' then
            (let (sg, u) =
                 (case t of
                    [] \<Rightarrow> (1 :: int, t)
                  | d # u \<Rightarrow>
                      if d = CHR ''+'' then (1, u) else if d = CHR ''-'' then (-1, u) else (1, t));
                 ds = takeWhile is_decimal_digit u
             in if ds = [] then 0 else sg * digits_value ds)
          else 0)"

datatype decimal_mv = MV_Infinity | MV_Value rat

text \<open>
  The mathematical value of the longest prefix that is a
  \<open>StrUnsignedDecimalLiteral\<close>: \<open>Infinity\<close>, or digits with an optional point
  and fraction digits (at least one digit in all), then an optional exponent.
\<close>

definition str_unsigned_decimal :: "js_string \<Rightarrow> decimal_mv option" where
  "str_unsigned_decimal s =
     (if take 8 s = ''Infinity'' then Some MV_Infinity
      else
        let ds1 = takeWhile is_decimal_digit s;
            r1 = dropWhile is_decimal_digit s;
            (ds2, r2) =
              (case r1 of
                 [] \<Rightarrow> ([], [])
               | c # t \<Rightarrow>
                   if c = dot then (takeWhile is_decimal_digit t, dropWhile is_decimal_digit t)
                   else ([], r1))
        in if ds1 = [] \<and> ds2 = [] then None
           else Some (MV_Value (Fract (digits_value (ds1 @ ds2)) (10 ^ length ds2)
                                * 10 powi exponent_part r2)))"

subsection \<open>Rounding to a double\<close>

definition round_half_even :: "rat \<Rightarrow> int" where
  "round_half_even x =
     (let f = \<lfloor>x\<rfloor>; d = x - of_int f
      in if d < 1 / 2 then f else if 1 / 2 < d then f + 1 else if even f then f else f + 1)"

text \<open>\<open>\<lfloor>log2 a\<rfloor>\<close> of a positive rational, from the bit lengths of its numerator and denominator.\<close>

definition rat_floor_log2 :: "rat \<Rightarrow> int" where
  "rat_floor_log2 a =
     (let (n, d) = quotient_of a; e = bitlen n - bitlen d
      in if a < 2 powi e then e - 1 else e)"

text \<open>
  The double nearest to \<open>q\<close>: 53 significant bits for normal numbers, a fixed
  spacing of \<open>2^-1074\<close> below \<open>2^-1022\<close>; a value that rounds to \<open>2^1024\<close> or
  beyond becomes an infinity.
\<close>

definition round_to_double :: "rat \<Rightarrow> js_number" where
  "round_to_double q =
     (if q = 0 then Num 0
      else
        let a = \<bar>q\<bar>;
            e = max (rat_floor_log2 a) (-1022);
            ulp = 2 powi (e - 52);
            v = of_int (round_half_even (a / ulp)) * ulp
        in if 2 ^ 1024 \<le> v then (if 0 < q then PosInf else NegInf)
           else Num (if 0 < q then v else - v))"

definition parse_float :: "js_string \<Rightarrow> js_number" where
  "parse_float str =
     (let t = dropWhile is_str_whitespace str;
          (neg, u) =
            (case t of
               [] \<Rightarrow> (False, t)
             | c # v \<Rightarrow>
                 if c = CHR ''-'' then (True, v) else if c = CHR ''+'' then (False, v) else (False, t))
      in case str_unsigned_decimal u of
           None \<Rightarrow> NaN
         | Some MV_Infinity \<Rightarrow> if neg then NegInf else PosInf
         | Some (MV_Value q) \<Rightarrow> round_to_double (if neg then - q else q))"

subsection \<open>The bitwise complement and strict equality\<close>

definition trunc_toward_zero :: "rat \<Rightarrow> int" where
  "trunc_toward_zero q = (if q < 0 then - \<lfloor>- q\<rfloor> else \<lfloor>q\<rfloor>)"

definition to_int32 :: "js_number \<Rightarrow> 32 word" where
  "to_int32 x = (case x of Num q \<Rightarrow> word_of_int (trunc_toward_zero q) | _ \<Rightarrow> 0)"

definition js_bitwise_not :: "js_number \<Rightarrow> js_number" where
  "js_bitwise_not x = Num (of_int (sint (NOT (to_int32 x))))"

fun js_number_strict_eq :: "js_number \<Rightarrow> js_number \<Rightarrow> bool" where
  "js_number_strict_eq (Num a) (Num b) = (a = b)"
| "js_number_strict_eq PosInf PosInf = True"
| "js_number_strict_eq NegInf NegInf = True"
| "js_number_strict_eq _ _ = False"

subsection \<open>Lemmas\<close>

text \<open>
  An equation for evaluation: the bound \<open>2^1024\<close> of \<open>round_to_double\<close> as a
  literal, so that evaluating \<open>parseFloat\<close> does not recompute the power.
\<close>

lemma round_to_double_code [code]:
  "round_to_double q =
     (if q = 0 then Num 0
      else
        let a = \<bar>q\<bar>;
            e = max (rat_floor_log2 a) (-1022);
            ulp = 2 powi (e - 52);
            v = of_int (round_half_even (a / ulp)) * ulp
        in if 179769313486231590772930519078902473361797697894230657273430081157732675805500963132708477322407536021120113879871393357658789768814416622492847430639474124377767893424865485276302219601246094119453082952085005768838150682342462881473913110540827237163350510684586298239947245938479716304835356329624224137216 \<le> v then (if 0 < q then PosInf else NegInf)
           else Num (if 0 < q then v else - v))"
  by (simp add: round_to_double_def)

lemma to_int32_signed [simp]: "to_int32 (Num (signed w)) = w"
proof -
  have "signed w = (of_int (sint w) :: rat)" by simp
  then have "to_int32 (Num (signed w)) = word_of_int (sint w)"
    by (simp only: to_int32_def trunc_toward_zero_def js_number.case floor_of_int
        of_int_less_0_iff minus_minus floor_minus of_int_minus if_cancel ceiling_of_int)
  then show ?thesis using scast_eq [of w] by simp
qed

text \<open>\<open>~~x\<close> is \<open>ToInt32(x)\<close> read as a signed integer.\<close>

lemma js_double_not: "js_bitwise_not (js_bitwise_not x) = Num (of_int (sint (to_int32 x)))"
  by (simp add: js_bitwise_not_def)

lemma trunc_toward_zero_int [simp]: "trunc_toward_zero (of_int k) = k"
  by (simp add: trunc_toward_zero_def)

lemma bitlen_pos_int: "0 < (x::int) \<Longrightarrow> 1 \<le> bitlen x"
  using bitlen_bounds [of x] by (cases "bitlen x \<le> 0") (auto simp: bitlen_nonneg)

lemma pow2_bitlen_bounds_rat:
  assumes "0 < (x::int)"
  shows "(2::rat) powi (bitlen x - 1) \<le> of_int x \<and> of_int x < (2::rat) powi bitlen x"
proof -
  have b: "1 \<le> bitlen x" using assms by (rule bitlen_pos_int)
  from bitlen_bounds [OF assms] have lo: "2 ^ nat (bitlen x - 1) \<le> x" and hi: "x < 2 ^ nat (bitlen x)"
    by auto
  have "(2::rat) powi (bitlen x - 1) = of_int (2 ^ nat (bitlen x - 1))"
    using b by (simp add: power_int_def)
  moreover have "(2::rat) powi bitlen x = of_int (2 ^ nat (bitlen x))"
    using b by (simp add: power_int_def)
  ultimately show ?thesis
    using lo hi by (simp only: of_int_le_iff of_int_less_iff)
qed

lemma powi2_mult: "(2::rat) powi i * 2 powi j = 2 powi (i + j)"
  by (simp add: power_int_add)

lemma rat_floor_log2_bounds:
  assumes "0 < a"
  shows "2 powi rat_floor_log2 a \<le> a \<and> a < 2 powi (rat_floor_log2 a + 1)"
proof -
  obtain n d where nd: "quotient_of a = (n, d)" by (cases "quotient_of a")
  have d0: "0 < d" using quotient_of_denom_pos [OF nd] .
  have a_eq: "a = of_int n / of_int d" using quotient_of_div [OF nd] .
  have n0: "0 < n"
    using assms d0 by (simp add: a_eq zero_less_divide_iff)
  define e where "e = bitlen n - bitlen d"
  note N = pow2_bitlen_bounds_rat [OF n0] and D = pow2_bitlen_bounds_rat [OF d0]
  have dpos: "(0::rat) < of_int d" using d0 by simp
  have lo: "2 powi (e - 1) < a"
  proof -
    have "2 powi (e - 1) * of_int d < 2 powi (e - 1) * (2::rat) powi bitlen d"
      using D by (intro mult_strict_left_mono) simp_all
    also have "\<dots> = 2 powi (bitlen n - 1)" by (simp add: powi2_mult e_def)
    also have "\<dots> \<le> of_int n" using N by simp
    finally show ?thesis using dpos by (simp add: a_eq pos_less_divide_eq)
  qed
  have hi: "a < 2 powi (e + 1)"
  proof -
    have "(of_int n :: rat) < 2 powi bitlen n" using N by simp
    also have "\<dots> = 2 powi (e + 1) * (2::rat) powi (bitlen d - 1)" by (simp add: powi2_mult e_def)
    also have "\<dots> \<le> 2 powi (e + 1) * of_int d"
      using D by (intro mult_left_mono) simp_all
    finally show ?thesis using dpos by (simp add: a_eq pos_divide_less_eq)
  qed
  have r: "rat_floor_log2 a = (if a < 2 powi e then e - 1 else e)"
    by (simp add: rat_floor_log2_def nd e_def)
  show ?thesis
    using lo hi by (auto simp: r)
qed
text \<open>The floor of the binary logarithm is the unique exponent that brackets the value.\<close>

lemma rat_floor_log2_unique:
  assumes "2 powi k \<le> a" and "a < 2 powi (k + 1)"
  shows "rat_floor_log2 a = k"
proof -
  have "0 < a" using assms(1) by (rule less_le_trans [rotated]) simp
  note B = rat_floor_log2_bounds [OF this]
  show ?thesis
  proof (rule ccontr)
    assume ne: "rat_floor_log2 a \<noteq> k"
    then consider "rat_floor_log2 a + 1 \<le> k" | "k + 1 \<le> rat_floor_log2 a" by linarith
    then show False
    proof cases
      case 1
      then have "(2::rat) powi (rat_floor_log2 a + 1) \<le> 2 powi k"
        by (rule power_int_increasing) simp
      with B assms(1) show False by simp
    next
      case 2
      then have "(2::rat) powi (k + 1) \<le> 2 powi rat_floor_log2 a"
        by (rule power_int_increasing) simp
      with B assms(2) show False by simp
    qed
  qed
qed

text \<open>\<open>ToInt32\<close> reads 7 exactly for the integers congruent to 7 modulo \<open>2^32\<close>.\<close>

lemma sint_int32_eq_7: "sint (word_of_int t :: 32 word) = 7 \<longleftrightarrow> t mod 2 ^ 32 = 7"
proof -
  have w: "sint w = 7 \<longleftrightarrow> w = 7" for w :: "32 word"
  proof
    assume "sint w = 7"
    then have "(of_int (sint w) :: 32 word) = of_int 7" by simp
    then show "w = 7" by simp
  qed simp
  have "(word_of_int t :: 32 word) = 7 \<longleftrightarrow> take_bit 32 t = take_bit 32 7"
    using word_of_int_eq_iff [where ?'a = 32, of t 7] by simp
  also have "\<dots> \<longleftrightarrow> t mod 2 ^ 32 = 7" by (simp add: take_bit_eq_mod)
  finally show ?thesis by (simp only: w)
qed
end
