(* ===== verification/JS_Math.thy ===== *)
theory JS_Math
  imports Complex_Main JS_Number
begin

text \<open>
  The two \<open>Math\<close> functions \<open>getMipChainLevels\<close> calls, modelled from the
  ECMAScript specification. \<open>Math.log2\<close> is implementation-approximated there; the
  model takes the correctly rounded result, the double nearest the exact real
  logarithm (\<open>round_real_to_double\<close>, the rounding of \<open>round_to_double\<close> lifted
  to a real argument, ties to even), which is what the engines deliver for the values
  below. \<open>Math.floor\<close> of a finite double is the exact floor, itself a double.
\<close>

definition round_half_even_real :: "real \<Rightarrow> int" where
  "round_half_even_real x =
     (let f = \<lfloor>x\<rfloor>; d = x - of_int f
      in if d < 1 / 2 then f else if 1 / 2 < d then f + 1 else if even f then f else f + 1)"

definition round_real_to_double :: "real \<Rightarrow> js_number" where
  "round_real_to_double x =
     (if x = 0 then Num 0
      else
        let a = \<bar>x\<bar>;
            e = max \<lfloor>log 2 a\<rfloor> (-1022);
            m = round_half_even_real (a / 2 powr of_int (e - 52));
            v = of_int m * (2::rat) powi (e - 52)
        in if 2 ^ 1024 \<le> v then (if 0 < x then PosInf else NegInf)
           else Num (if 0 < x then v else - v))"

definition math_log2 :: "js_number \<Rightarrow> js_number" where
  "math_log2 v =
     (case v of
        NaN \<Rightarrow> NaN
      | PosInf \<Rightarrow> PosInf
      | NegInf \<Rightarrow> NaN
      | Num q \<Rightarrow>
          if q < 0 then NaN else if q = 0 then NegInf
          else round_real_to_double (log 2 (of_rat q)))"

definition math_floor :: "js_number \<Rightarrow> js_number" where
  "math_floor v = (case v of Num q \<Rightarrow> Num (of_int \<lfloor>q\<rfloor>) | _ \<Rightarrow> v)"

subsection \<open>Rounding to the nearest integer\<close>

lemma round_half_even_real_bounds:
  "x - 1 / 2 \<le> of_int (round_half_even_real x) \<and> of_int (round_half_even_real x) \<le> x + 1 / 2"
proof -
  have "x - 1 < of_int \<lfloor>x\<rfloor>" "of_int \<lfloor>x\<rfloor> \<le> x" by linarith+
  then show ?thesis
    unfolding round_half_even_real_def Let_def
    apply (simp split: if_split)
    apply linarith+
    done
qed

lemma round_half_even_real_ge:
  assumes "of_int k \<le> x"
  shows "k \<le> round_half_even_real x"
proof -
  have "k \<le> \<lfloor>x\<rfloor>" using assms by (simp add: le_floor_iff)
  then show ?thesis unfolding round_half_even_real_def Let_def by simp
qed

lemma round_half_even_real_le:
  assumes "x \<le> of_int k"
  shows "round_half_even_real x \<le> k"
proof (cases "x = of_int k")
  case False
  with assms have "\<lfloor>x\<rfloor> < k" by (simp add: floor_less_iff)
  then show ?thesis unfolding round_half_even_real_def Let_def by simp
qed (simp add: round_half_even_real_def)

lemma round_half_even_real_gt:
  assumes "of_int k - 1 / 2 < x"
  shows "k \<le> round_half_even_real x"
  using round_half_even_real_bounds [of x] assms by linarith

subsection \<open>Rounding a real to a double\<close>

lemma of_rat_powi2: "(of_rat ((2::rat) powi k) :: real) = 2 powi k"
  by (simp add: power_int_def of_rat_power of_rat_inverse of_rat_divide)

lemma powr2_int: "(2::real) powr of_int k = 2 powi k"
  by (rule powr_real_of_int') simp_all

lemma of_rat_double: "(of_rat (of_int m * (2::rat) powi k) :: real) = of_int m * 2 powr of_int k"
  by (simp add: of_rat_mult of_rat_powi2 powr2_int)

lemma floor_log2_bounds:
  fixes a :: real
  assumes "0 < a"
  shows "2 powr of_int \<lfloor>log 2 a\<rfloor> \<le> a \<and> a < 2 powr of_int (\<lfloor>log 2 a\<rfloor> + 1)"
  using floor_log_eq_powr_iff [OF assms, of 2 "\<lfloor>log 2 a\<rfloor>"] by simp

lemma double_spacing_le:
  fixes a :: real
  assumes "0 < a"
  shows "2 powr of_int (\<lfloor>log 2 a\<rfloor> - 52) \<le> a / 2 ^ 52"
proof -
  have "(2::real) powr of_int (\<lfloor>log 2 a\<rfloor> - 52) = 2 powr of_int \<lfloor>log 2 a\<rfloor> / 2 ^ 52"
    by (simp add: powr_diff)
  then show ?thesis using floor_log2_bounds [OF assms] by (simp add: divide_right_mono)
qed

lemma floor_log2_ge:
  fixes a :: real
  assumes "2 powr of_int k \<le> a"
  shows "k \<le> \<lfloor>log 2 a\<rfloor>"
proof -
  have "0 < a" using assms by (rule less_le_trans [rotated]) simp
  then have "of_int k \<le> log 2 a" using assms by (simp add: le_log_iff)
  then show ?thesis by (simp add: le_floor_iff)
qed

lemma floor_log2_lt:
  fixes a :: real
  assumes "0 < a" "a < 2 powr of_int k"
  shows "\<lfloor>log 2 a\<rfloor> < k"
proof -
  have "log 2 a < of_int k" using assms by (simp add: log_less_iff)
  then show ?thesis by (simp add: floor_less_iff)
qed

lemma round_real_to_double_normal:
  fixes x :: real
  assumes "2 powr -1022 \<le> \<bar>x\<bar>" "\<bar>x\<bar> < 2 powr 1023"
  defines "e \<equiv> \<lfloor>log 2 \<bar>x\<bar>\<rfloor> - 52"
  defines "N \<equiv> round_half_even_real (\<bar>x\<bar> / 2 powr of_int e)"
  shows "round_real_to_double x =
    Num (if 0 < x then of_int N * 2 powi e else - (of_int N * 2 powi e))"
proof -
  have a0: "0 < \<bar>x\<bar>" using assms(1) by (rule less_le_trans [rotated]) simp
  have "-1022 \<le> \<lfloor>log 2 \<bar>x\<bar>\<rfloor>" using floor_log2_ge [of "-1022" "\<bar>x\<bar>"] assms(1) by simp
  then have emax: "max \<lfloor>log 2 \<bar>x\<bar>\<rfloor> (-1022) - 52 = e" by (simp add: e_def)
  define u :: real where "u = 2 powr of_int e"
  have u0: "0 < u" by (simp add: u_def)
  have uB: "u \<le> \<bar>x\<bar> / 2 ^ 52" using double_spacing_le [OF a0] by (simp add: u_def e_def)
  have N1: "of_int N \<le> \<bar>x\<bar> / u + 1 / 2"
    using round_half_even_real_bounds [of "\<bar>x\<bar> / u"] by (simp add: N_def u_def)
  have "of_int N * u \<le> (\<bar>x\<bar> / u + 1 / 2) * u" using mult_right_mono [OF N1, of u] u0 by simp
  also have "\<dots> = \<bar>x\<bar> + u / 2" using u0 by (simp add: field_simps)
  also have "\<dots> < 2 ^ 1024" using uB assms(2) by (simp add: powr_numeral)
  finally have "(of_rat (of_int N * 2 powi e) :: real) < of_rat (2 ^ 1024)"
    by (simp add: of_rat_double u_def of_rat_power)
  then have "\<not> 2 ^ 1024 \<le> (of_int N * 2 powi e :: rat)" by (simp only: of_rat_less not_le)
  moreover have "x \<noteq> 0" using a0 by simp
  ultimately show ?thesis
    unfolding round_real_to_double_def Let_def emax N_def by simp
qed

text \<open>
  Below \<open>2^53\<close> every integer is a multiple of the spacing of the doubles, so
  rounding never crosses an integer: a rounded value lies between the integers around
  its argument, and it reaches the upper one only from within half a spacing.
\<close>

lemma of_int_scale_le: "(a::int) \<le> b \<Longrightarrow> 0 \<le> u \<Longrightarrow> of_int a * u \<le> of_int b * (u::real)"
  by (rule mult_right_mono) simp_all

lemma round_real_to_double_lattice:
  fixes x :: real
  assumes "2 powr -1022 \<le> \<bar>x\<bar>" "\<bar>x\<bar> < 2 ^ 53"
  obtains r where "round_real_to_double x = Num (if 0 < x then r else - r)" "0 < r"
    "of_rat r \<le> \<bar>x\<bar> + 2 powr of_int (\<lfloor>log 2 \<bar>x\<bar>\<rfloor> - 52) / 2"
    "\<And>k::int. of_int k \<le> \<bar>x\<bar> \<Longrightarrow> of_int k \<le> r"
    "\<And>k::int. \<bar>x\<bar> \<le> of_int k \<Longrightarrow> r \<le> of_int k"
    "\<And>k::int. of_int k - 2 powr of_int (\<lfloor>log 2 \<bar>x\<bar>\<rfloor> - 52) / 2 < \<bar>x\<bar> \<Longrightarrow> of_int k \<le> r"
proof -
  define e where "e = \<lfloor>log 2 \<bar>x\<bar>\<rfloor> - 52"
  define u :: real where "u = 2 powr of_int e"
  define N where "N = round_half_even_real (\<bar>x\<bar> / u)"
  define d where "d = nat (- e)"
  define r where "r = of_int N * (2::rat) powi e"
  have a0: "0 < \<bar>x\<bar>" using assms(1) by (rule less_le_trans [rotated]) simp
  have "\<bar>x\<bar> < 2 powr of_int 53" using assms(2) by (simp add: powr_numeral)
  from floor_log2_lt [OF a0 this] have "e < 1" by (simp add: e_def)
  then have ed: "of_int e + real d = 0" by (simp add: d_def)
  have u0: "0 < u" by (simp add: u_def)
  have u1: "u * 2 ^ d = 1"
    using ed by (simp add: u_def powr_realpow [symmetric] powr_add [symmetric])
  have div: "\<bar>x\<bar> / u = \<bar>x\<bar> * 2 ^ d" using u1 u0 by (simp add: field_simps)
  have lat: "of_int k = of_int (k * 2 ^ d) * u" for k :: int
    using u1 by (simp add: mult.assoc [symmetric] mult.commute)
  have R: "(of_rat r :: real) = of_int N * u" by (simp add: r_def of_rat_double u_def)
  have "\<bar>x\<bar> < 2 powr 1023"
    using assms(2) by (rule less_le_trans) (simp add: powr_numeral)
  from round_real_to_double_normal [OF assms(1) this]
  have rd: "round_real_to_double x = Num (if 0 < x then r else - r)"
    by (simp add: r_def N_def u_def e_def)
  have N1: "of_int N \<le> \<bar>x\<bar> / u + 1 / 2"
    using round_half_even_real_bounds [of "\<bar>x\<bar> / u"] by (simp add: N_def)
  have "of_int N * u \<le> (\<bar>x\<bar> / u + 1 / 2) * u" using mult_right_mono [OF N1, of u] u0 by simp
  moreover have "(\<bar>x\<bar> / u + 1 / 2) * u = \<bar>x\<bar> + u / 2" using u0 by (simp add: field_simps)
  ultimately have hi: "of_rat r \<le> \<bar>x\<bar> + u / 2" by (simp add: R)
  have lo: "of_int k \<le> r" if "of_int (k * 2 ^ d) \<le> \<bar>x\<bar> / u" for k :: int
  proof -
    have "k * 2 ^ d \<le> N" using round_half_even_real_ge [OF that] by (simp add: N_def)
    then have "of_int (k * 2 ^ d) * u \<le> of_int N * u" by (rule of_int_scale_le) (use u0 in simp)
    then have "(of_rat (of_int k) :: real) \<le> of_rat r" by (simp only: of_rat_of_int_eq R lat [of k, symmetric])
    then show ?thesis by (simp only: of_rat_less_eq)
  qed
  show ?thesis
  proof (rule that [OF rd])
    have "of_int (2 ^ 52) \<le> \<bar>x\<bar> / u"
    proof -
      have "2 powr of_int (e + 52) \<le> \<bar>x\<bar>" using floor_log2_bounds [OF a0] by (simp add: e_def)
      moreover have "2 powr of_int (e + 52) = 2 ^ 52 * u" by (simp add: u_def powr_add)
      ultimately show ?thesis using u0 by (simp add: field_simps)
    qed
    then have "2 ^ 52 \<le> N" unfolding N_def by (rule round_half_even_real_ge)
    then show "0 < r" by (simp add: r_def)
    show "of_rat r \<le> \<bar>x\<bar> + 2 powr of_int (\<lfloor>log 2 \<bar>x\<bar>\<rfloor> - 52) / 2"
      using hi by (simp add: u_def e_def)
    show "of_int k \<le> r" if "of_int k \<le> \<bar>x\<bar>" for k :: int
      using lo [of k] that by (simp add: div)
    show "r \<le> of_int k" if "\<bar>x\<bar> \<le> of_int k" for k :: int
    proof -
      have "\<bar>x\<bar> / u \<le> of_int (k * 2 ^ d)" using that by (simp add: div)
      then have "N \<le> k * 2 ^ d" using round_half_even_real_le by (simp add: N_def)
      then have "of_int N * u \<le> of_int (k * 2 ^ d) * u" by (rule of_int_scale_le) (use u0 in simp)
      then have "(of_rat r :: real) \<le> of_rat (of_int k)" by (simp only: of_rat_of_int_eq R lat [of k, symmetric])
      then show ?thesis by (simp only: of_rat_less_eq)
    qed
    show "of_int k \<le> r" if "of_int k - 2 powr of_int (\<lfloor>log 2 \<bar>x\<bar>\<rfloor> - 52) / 2 < \<bar>x\<bar>" for k :: int
    proof -
      have "of_int k - u / 2 < \<bar>x\<bar>" using that by (simp add: u_def e_def)
      then have "(of_int k - u / 2) * 2 ^ d < \<bar>x\<bar> * 2 ^ d" by (rule mult_strict_right_mono) simp
      moreover have "u / 2 * 2 ^ d = 1 / 2" using u1 by simp
      ultimately have "of_int (k * 2 ^ d) - 1 / 2 < \<bar>x\<bar> / u"
        by (simp only: div left_diff_distrib of_int_mult of_int_power of_int_numeral)
      then have "k * 2 ^ d \<le> N" using round_half_even_real_gt by (simp add: N_def)
      then have "of_int (k * 2 ^ d) * u \<le> of_int N * u" by (rule of_int_scale_le) (use u0 in simp)
      then have "(of_rat (of_int k) :: real) \<le> of_rat r" by (simp only: of_rat_of_int_eq R lat [of k, symmetric])
      then show ?thesis by (simp only: of_rat_less_eq)
    qed
  qed
qed

subsection \<open>\<open>Math.floor\<close> of a rounded value\<close>

lemma math_floor_round_bracket:
  fixes x :: real
  assumes "1 \<le> x" "x < 2 ^ 53" "of_int f \<le> x" "x < of_int f + 1"
  obtains j where "math_floor (round_real_to_double x) = Num (of_int j)" "f \<le> j" "j \<le> f + 1"
    "x + 2 powr of_int (\<lfloor>log 2 x\<rfloor> - 52) / 2 < of_int f + 1 \<Longrightarrow> j = f"
    "of_int f + 1 - 2 powr of_int (\<lfloor>log 2 x\<rfloor> - 52) / 2 < x \<Longrightarrow> j = f + 1"
proof -
  have x0: "0 < x" using assms(1) by simp
  have "2 powr -1022 \<le> \<bar>x\<bar>"
  proof -
    have "(2::real) powr -1022 \<le> 2 powr 0" by (rule powr_mono) simp_all
    with assms(1) show ?thesis by simp
  qed
  moreover have "\<bar>x\<bar> < 2 ^ 53" using assms(2) x0 by simp
  ultimately obtain r where rd: "round_real_to_double x = Num r"
    and hi: "of_rat r \<le> x + 2 powr of_int (\<lfloor>log 2 x\<rfloor> - 52) / 2"
    and lo: "\<And>k::int. of_int k \<le> x \<Longrightarrow> of_int k \<le> r"
    and up: "\<And>k::int. x \<le> of_int k \<Longrightarrow> r \<le> of_int k"
    and near: "\<And>k::int. of_int k - 2 powr of_int (\<lfloor>log 2 x\<rfloor> - 52) / 2 < x \<Longrightarrow> of_int k \<le> r"
    by (rule round_real_to_double_lattice) (use x0 in auto)
  have f1: "of_int f \<le> r" using lo [OF assms(3)] .
  have f2: "r \<le> of_int (f + 1)" using up [of "f + 1"] assms(4) by simp
  show ?thesis
  proof (rule that [of "\<lfloor>r\<rfloor>"])
    show "math_floor (round_real_to_double x) = Num (of_int \<lfloor>r\<rfloor>)" by (simp add: rd math_floor_def)
    show "f \<le> \<lfloor>r\<rfloor>" using f1 by (simp add: le_floor_iff)
    show "\<lfloor>r\<rfloor> \<le> f + 1" using f2 by (simp add: floor_le_iff)
    show "\<lfloor>r\<rfloor> = f" if "x + 2 powr of_int (\<lfloor>log 2 x\<rfloor> - 52) / 2 < of_int f + 1"
    proof -
      have "(of_rat r :: real) < of_rat (of_int (f + 1))" using hi that by (simp add: of_rat_add)
      then have "r < of_int (f + 1)" by (simp only: of_rat_less)
      with f1 show ?thesis by (simp add: floor_eq_iff)
    qed
    show "\<lfloor>r\<rfloor> = f + 1" if "of_int f + 1 - 2 powr of_int (\<lfloor>log 2 x\<rfloor> - 52) / 2 < x"
    proof -
      have "of_int (f + 1) \<le> r" using near [of "f + 1"] that by simp
      with f2 show ?thesis by (simp add: floor_eq_iff)
    qed
  qed
qed

lemma math_floor_round_negative:
  fixes x :: real
  assumes "x < 0" "2 powr of_int k \<le> - x" "-1022 \<le> k" "- x \<le> of_int m" "m < 2 ^ 53"
  obtains j where "math_floor (round_real_to_double x) = Num (of_int j)" "- m \<le> j" "j < 0"
proof -
  have "(2::real) powr -1022 \<le> 2 powr of_int k" by (rule powr_mono) (use assms(3) in simp_all)
  from order_trans [OF this assms(2)] have "2 powr -1022 \<le> \<bar>x\<bar>" using assms(1) by simp
  moreover have "\<bar>x\<bar> < 2 ^ 53" using assms(1,4,5) by simp
  ultimately have "2 powr -1022 \<le> \<bar>x\<bar>" "\<bar>x\<bar> < 2 ^ 53" by simp_all
  then obtain r where rd: "round_real_to_double x = Num (- r)" and r0: "0 < r"
    and up: "\<And>k::int. \<bar>x\<bar> \<le> of_int k \<Longrightarrow> r \<le> of_int k"
    by (rule round_real_to_double_lattice) (use assms(1) in auto)
  have "r \<le> of_int m" using up [of m] assms by simp
  show ?thesis
  proof (rule that [of "\<lfloor>- r\<rfloor>"])
    show "math_floor (round_real_to_double x) = Num (of_int \<lfloor>- r\<rfloor>)" by (simp add: rd math_floor_def)
    show "- m \<le> \<lfloor>- r\<rfloor>" using \<open>r \<le> of_int m\<close> by (simp add: le_floor_iff)
    show "\<lfloor>- r\<rfloor> < 0" using r0 by (simp add: floor_less_iff)
  qed
qed

end
