(* ===== verification/Mip_Levels.thy ===== *)
theory Mip_Levels
  imports Complex_Main JS_Math
begin

text \<open>
  \<open>getMipChainLevels\<close> (line 55 of \<^verbatim>\<open>src/lib/utilities.ts\<close>) returns
  \<^verbatim>\<open>Math.floor(Math.log2(value)) + 1\<close>: \<open>math_log2\<close> and \<open>math_floor\<close>
  (theory \<open>JS_Math\<close>) composed as the code composes them, and \<open>js_add\<close>, the
  addition of numbers rounded to a double. Because \<open>Math.log2\<close> returns a double,
  the count follows the mip chain \<open>n, n div 2, \<dots>, 1\<close> exactly only while the
  logarithm of an integer stays further than half a spacing of the doubles from the
  next integer: for every dimension below \<open>2^47\<close> it does, just below \<open>2^53\<close> it
  does not.
\<close>

fun js_add :: "js_number \<Rightarrow> js_number \<Rightarrow> js_number" where
  "js_add NaN y = NaN"
| "js_add x NaN = NaN"
| "js_add PosInf NegInf = NaN"
| "js_add NegInf PosInf = NaN"
| "js_add PosInf y = PosInf"
| "js_add NegInf y = NegInf"
| "js_add x PosInf = PosInf"
| "js_add x NegInf = NegInf"
| "js_add (Num a) (Num b) = round_to_double (a + b)"

definition getMipChainLevels :: "js_number \<Rightarrow> js_number" where
  "getMipChainLevels value = js_add (math_floor (math_log2 value)) (Num 1)"

text \<open>The mip chain of a texture of largest dimension \<open>n\<close>: halve until one texel.\<close>

fun mip_chain :: "nat \<Rightarrow> nat list" where
  "mip_chain n = (if n \<le> 1 then [n] else n # mip_chain (n div 2))"

declare mip_chain.simps [simp del]

subsection \<open>Lemmas\<close>

lemma round_half_even_int [simp]: "round_half_even (of_int m) = m"
  by (simp add: round_half_even_def)

lemma rat_floor_log2_int_range:
  assumes "1 \<le> a" "a < 2 ^ 53"
  shows "0 \<le> rat_floor_log2 a \<and> rat_floor_log2 a \<le> 52"
proof -
  note B = rat_floor_log2_bounds [of a]
  have "\<not> rat_floor_log2 a + 1 \<le> 0"
  proof
    assume "rat_floor_log2 a + 1 \<le> 0"
    then have "(2::rat) powi (rat_floor_log2 a + 1) \<le> 2 powi 0"
      by (rule power_int_increasing) simp
    with B assms(1) show False by simp
  qed
  moreover have "\<not> 53 \<le> rat_floor_log2 a"
  proof
    assume "53 \<le> rat_floor_log2 a"
    then have "(2::rat) powi 53 \<le> 2 powi rat_floor_log2 a"
      by (rule power_int_increasing) simp
    with B assms show False by simp
  qed
  ultimately show ?thesis by simp
qed

lemma round_to_double_int:
  assumes "\<bar>k\<bar> < 2 ^ 53"
  shows "round_to_double (of_int k) = Num (of_int k)"
proof (cases "k = 0")
  case False
  define a :: rat where "a = of_int \<bar>k\<bar>"
  define e where "e = rat_floor_log2 a"
  have a1: "1 \<le> a" "a < 2 ^ 53" using False assms by (simp_all add: a_def)
  then have e: "0 \<le> e" "e \<le> 52" using rat_floor_log2_int_range e_def by auto
  have ulp: "(2::rat) powi (e - 52) = 1 / 2 ^ nat (52 - e)"
    using e by (simp add: power_int_def power_one_over)
  have div: "a / 2 powi (e - 52) = of_int (\<bar>k\<bar> * 2 ^ nat (52 - e))"
    by (simp add: ulp a_def)
  have mul: "of_int (\<bar>k\<bar> * 2 ^ nat (52 - e)) * (2::rat) powi (e - 52) = a"
    by (simp add: ulp a_def)
  have emax: "max e (-1022) = e" using e by simp
  have "\<not> (2::rat) ^ 1024 \<le> a"
  proof -
    have "(2::rat) ^ 53 \<le> 2 ^ 1024" by (rule power_increasing) simp_all
    with a1 show ?thesis by simp
  qed
  moreover have "round_to_double (of_int k) =
      (if 2 ^ 1024 \<le> a then (if 0 < (of_int k :: rat) then PosInf else NegInf)
       else Num (if 0 < (of_int k :: rat) then a else - a))"
  proof -
    have A: "\<bar>rat_of_int k\<bar> = a" by (simp add: a_def)
    show ?thesis
      unfolding round_to_double_def Let_def A e_def [symmetric] emax div round_half_even_int mul
      using False by simp
  qed
  ultimately show ?thesis by (auto simp: a_def)
qed (simp add: round_to_double_def)

lemma js_add_int_one:
  "\<bar>k + 1\<bar> < 2 ^ 53 \<Longrightarrow> js_add (Num (of_int k)) (Num 1) = Num (of_int (k + 1))"
  using round_to_double_int [of "k + 1"] by simp

lemma length_mip_chain: "0 < n \<Longrightarrow> length (mip_chain n) = floorlog 2 n"
proof (induction n rule: mip_chain.induct)
  case (1 n)
  show ?case
  proof (cases "n \<le> 1")
    case True
    with 1 have "n = 1" by simp
    then show ?thesis by (simp add: mip_chain.simps floorlog_def)
  next
    case False
    then have "length (mip_chain n) = Suc (length (mip_chain (n div 2)))"
      by (simp add: mip_chain.simps [of n])
    with 1 False show ?thesis by (simp add: compute_floorlog [of 2 n])
  qed
qed

lemma getMipChainLevels_one: "getMipChainLevels (Num 1) = Num 1"
proof -
  have "math_floor (math_log2 (Num 1)) = Num (of_int 0)"
    by (simp add: math_log2_def math_floor_def round_real_to_double_def)
  then show ?thesis using js_add_int_one [of 0] by (simp add: getMipChainLevels_def)
qed

text \<open>Bounds on the binary logarithm just below a power of two.\<close>

lemma ln2_ge_half: "1 / 2 \<le> ln (2::real)"
proof -
  have "ln (1 - 1 / 2 :: real) \<le> - (1 / 2)" by (rule ln_one_minus_pos_upper_bound) simp_all
  then show ?thesis by (simp add: ln_div)
qed

lemma log2_one_minus_le:
  fixes t :: real
  assumes "0 \<le> t" "t < 1"
  shows "log 2 (1 - t) \<le> - t"
proof -
  have l: "ln (1 - t) \<le> - t" using ln_one_minus_pos_upper_bound [OF assms] .
  have "0 < ln (2::real)" "ln (2::real) < 1" by (simp_all add: ln_2_less_1)
  then have b: "- t / ln 2 \<le> - t" using assms(1) by (simp add: field_simps mult_left_le)
  have a: "ln (1 - t) / ln 2 \<le> - t / ln 2"
    using l by (rule divide_right_mono) (use \<open>0 < ln 2\<close> in simp)
  show ?thesis unfolding log_def by (rule order_trans [OF a b])
qed

lemma log2_one_minus_ge:
  fixes t :: real
  assumes "0 \<le> t" "t \<le> 1 / 2"
  shows "- 2 * (t + 2 * t\<^sup>2) \<le> log 2 (1 - t)"
proof -
  have l: "- t - 2 * t\<^sup>2 \<le> ln (1 - t)" using ln_one_minus_pos_lower_bound [OF assms] .
  have "0 \<le> t\<^sup>2" by simp
  with assms(1) have n: "- t - 2 * t\<^sup>2 \<le> 0" by linarith
  define a where "a = t + 2 * t\<^sup>2"
  have a0: "0 \<le> a" using n by (simp add: a_def)
  have "a / ln 2 \<le> a / (1 / 2)"
    by (rule divide_left_mono) (use ln2_ge_half a0 in simp_all)
  then have "- 2 * a \<le> (- a) / ln 2" by simp
  also have "\<dots> \<le> ln (1 - t) / ln 2"
  proof (rule divide_right_mono)
    show "- a \<le> ln (1 - t)" using l by (simp add: a_def)
  qed simp
  finally show ?thesis by (simp add: log_def a_def)
qed

lemma log2_floorlog:
  assumes "0 < n"
  shows "real (floorlog 2 n) - 1 \<le> log 2 (real n) \<and> log 2 (real n) < real (floorlog 2 n)"
proof -
  have B: "2 ^ (floorlog 2 n - 1) \<le> n \<and> n < 2 ^ floorlog 2 n"
    using floorlog_bounds [OF assms, of 2] by simp
  have "floorlog 2 n \<noteq> 0" using assms by (simp add: floorlog_eq_zero_iff)
  then have fl: "1 \<le> floorlog 2 n" by simp
  have "(2::real) powr (real (floorlog 2 n) - 1) = 2 ^ (floorlog 2 n - 1)"
    using fl by (simp add: powr_realpow [symmetric] of_nat_diff)
  also have "\<dots> \<le> real n"
  proof -
    have "real (2 ^ (floorlog 2 n - 1)) \<le> real n" using B by (simp only: of_nat_le_iff)
    then show ?thesis by simp
  qed
  finally have lo: "real (floorlog 2 n) - 1 \<le> log 2 (real n)" using assms by (simp add: le_log_iff)
  have "real n < real (2 ^ floorlog 2 n)" using B by (simp only: of_nat_less_iff)
  then have "real n < 2 ^ floorlog 2 n" by simp
  also have "\<dots> = 2 powr real (floorlog 2 n)" by (simp add: powr_realpow)
  finally have "log 2 (real n) < real (floorlog 2 n)" using assms by (simp add: log_less_iff)
  with lo show ?thesis by simp
qed

lemma log2_nat_below_power:
  assumes "0 < n"
  shows "log 2 (real n) \<le> real (floorlog 2 n) - 1 / 2 ^ floorlog 2 n"
proof -
  define p :: real where "p = 2 ^ floorlog 2 n"
  have p0: "0 < p" by (simp add: p_def)
  have "n < 2 ^ floorlog 2 n" using floorlog_bounds [OF assms, of 2] by simp
  then have "real (n + 1) \<le> real (2 ^ floorlog 2 n)" by (simp only: of_nat_le_iff)
  then have "real n \<le> p - 1" by (simp add: p_def)
  also have "\<dots> = p * (1 - 1 / p)" using p0 by (simp add: field_simps)
  finally have le: "real n \<le> p * (1 - 1 / p)" .
  have p1: "1 \<le> p" by (simp add: p_def)
  have "1 < p" using le assms p1 by (cases "p = 1") simp_all
  then have pos: "0 < 1 - 1 / p" by simp
  have "log 2 (real n) \<le> log 2 (p * (1 - 1 / p))" using le assms pos p0 by simp
  also have "\<dots> = real (floorlog 2 n) + log 2 (1 - 1 / p)"
    using p0 pos by (simp add: log_mult_pos p_def log_nat_power)
  finally have "log 2 (real n) \<le> real (floorlog 2 n) + log 2 (1 - 1 / p)" .
  moreover have "log 2 (1 - 1 / p) \<le> - (1 / p)" using log2_one_minus_le [of "1 / p"] \<open>1 < p\<close> by simp
  ultimately show ?thesis by (simp add: p_def)
qed

lemma double_min_le: "1 / 2 \<le> (x :: rat) \<Longrightarrow> 2 powi -1074 \<le> x"
proof -
  assume x: "1 / 2 \<le> x"
  have "(2::rat) powi -1074 \<le> 2 powi -1" by (rule power_int_increasing) simp_all
  with x show ?thesis by (simp add: power_int_def)
qed

lemma math_log2_nat: "0 < n \<Longrightarrow> math_log2 (Num (of_nat n)) = round_real_to_double (log 2 (real n))"
  by (simp add: math_log2_def)

lemma log2_nat_range:
  assumes "2 \<le> n" "n < 2 ^ k"
  shows "1 \<le> log 2 (real n) \<and> log 2 (real n) < real k"
proof -
  have "real n < real (2 ^ k)" using assms(2) by (simp only: of_nat_less_iff)
  then have "real n < 2 powr real k" by (simp add: powr_realpow)
  moreover have "(2::real) \<le> real n" using assms(1) by simp
  ultimately show ?thesis using assms(1) by (simp add: log_less_iff one_le_log_cancel_iff)
qed

text \<open>
  For a dimension \<open>n \<ge> 2\<close> the floor of the rounded logarithm is \<open>\<lfloor>log2 n\<rfloor>\<close>
  or one more, and which one depends on the distance of \<open>log2 n\<close> to the next
  integer, measured in half spacings of the doubles around it.
\<close>

lemma getMipChainLevels_nat_bracket:
  assumes "2 \<le> n" "n < 2 ^ 1024"
  obtains j where "getMipChainLevels (Num (of_nat n)) = Num (of_int (j + 1))"
    "int (floorlog 2 n) - 1 \<le> j" "j \<le> int (floorlog 2 n)"
    "log 2 (real n) + 2 powr of_int (\<lfloor>log 2 (log 2 (real n))\<rfloor> - 52) / 2 < real (floorlog 2 n)
       \<Longrightarrow> j = int (floorlog 2 n) - 1"
    "real (floorlog 2 n) - 2 powr of_int (\<lfloor>log 2 (log 2 (real n))\<rfloor> - 52) / 2 < log 2 (real n)
       \<Longrightarrow> j = int (floorlog 2 n)"
proof -
  define x where "x = log 2 (real n)"
  define f where "f = int (floorlog 2 n) - 1"
  have n0: "0 < n" using assms(1) by simp
  have R: "1 \<le> x" "x < 1024" using log2_nat_range [OF assms] by (simp_all add: x_def)
  then have x53: "x < 2 ^ 53" by simp
  have f: "of_int f \<le> x" "x < of_int f + 1" using log2_floorlog [OF n0] by (simp_all add: x_def f_def)
  obtain j where j: "math_floor (round_real_to_double x) = Num (of_int j)" "f \<le> j" "j \<le> f + 1"
    and lo: "x + 2 powr of_int (\<lfloor>log 2 x\<rfloor> - 52) / 2 < of_int f + 1 \<Longrightarrow> j = f"
    and hi: "of_int f + 1 - 2 powr of_int (\<lfloor>log 2 x\<rfloor> - 52) / 2 < x \<Longrightarrow> j = f + 1"
    using math_floor_round_bracket [OF R(1) x53 f] by blast
  have "of_int f < (1024::real)" using f R by linarith
  then have "\<bar>j + 1\<bar> < 2 ^ 53" using j(2,3) f_def by simp
  then have "getMipChainLevels (Num (of_nat n)) = Num (of_int (j + 1))"
    using j(1) js_add_int_one by (simp add: getMipChainLevels_def math_log2_nat [OF n0] x_def [symmetric])
  then show ?thesis
    by (rule that) (use j lo hi in \<open>simp_all add: f_def x_def\<close>)
qed

lemma double_below_one:
  assumes "round_to_double q = Num q" "0 < q" "q < 1"
  shows "q \<le> 1 - 2 powi -53"
proof (cases "q < 1 / 2")
  case True
  have "(2::rat) powi -53 = 1 / 2 ^ 53" by (simp add: power_int_def power_one_over)
  with True show ?thesis by simp
next
  case False
  have r: "rat_floor_log2 q = -1"
    by (rule rat_floor_log2_unique) (use False assms in \<open>simp_all add: power_int_def\<close>)
  define M where "M = round_half_even (q / 2 powi -53)"
  have "round_to_double q =
      (if (2::rat) ^ 1024 \<le> of_int M * 2 powi -53 then PosInf else Num (of_int M * 2 powi -53))"
    using assms(2) by (simp add: round_to_double_def Let_def r M_def)
  with assms(1) have "q = of_int M * 2 powi -53" by (simp split: if_splits)
  moreover have "(2::rat) powi -53 = 1 / 2 ^ 53" by (simp add: power_int_def power_one_over)
  ultimately have q: "q = of_int M / 2 ^ 53" by simp
  with assms(3) have "M < 2 ^ 53" by simp
  then have "M \<le> 2 ^ 53 - 1" by linarith
  then have "of_int M \<le> (of_int (2 ^ 53 - 1) :: rat)" by (simp only: of_int_le_iff)
  then have "of_int M \<le> (2 ^ 53 - 1 :: rat)" by simp
  with q show ?thesis by (simp add: power_int_def power_one_over field_simps)
qed

lemma getMipChainLevels_errors:
  "getMipChainLevels (Num 0) = NegInf \<and> getMipChainLevels NaN = NaN \<and>
   getMipChainLevels NegInf = NaN \<and> getMipChainLevels PosInf = PosInf \<and>
   (q < 0 \<longrightarrow> getMipChainLevels (Num q) = NaN)"
  by (simp add: getMipChainLevels_def math_log2_def math_floor_def)

subsection \<open>Properties\<close>

text \<open>
  C17. For every texture dimension \<open>n\<close> with \<open>0 < n < 2^47\<close>,
  \<open>getMipChainLevels\<close> counts the levels of the mip chain \<open>n, n div 2, \<dots>, 1\<close>
  (\<open>\<lfloor>log2 n\<rfloor> + 1\<close> of the specification): the rounding of \<open>Math.log2\<close> never
  reaches the next integer there.
\<close>

theorem getMipChainLevels_chain:
  assumes "0 < n" "n < 2 ^ 47"
  shows "getMipChainLevels (Num (of_nat n)) = Num (of_nat (length (mip_chain n)))"
proof (cases "n = 1")
  case True
  then show ?thesis using getMipChainLevels_one by (simp add: mip_chain.simps)
next
  case False
  then have n2: "2 \<le> n" using assms(1) by simp
  define x where "x = log 2 (real n)"
  define fl where "fl = floorlog 2 n"
  have n1024: "n < 2 ^ 1024" using assms(2) by (rule less_le_trans) simp
  obtain j where j: "getMipChainLevels (Num (of_nat n)) = Num (of_int (j + 1))"
    and lo: "x + 2 powr of_int (\<lfloor>log 2 x\<rfloor> - 52) / 2 < real fl \<Longrightarrow> j = int fl - 1"
    using getMipChainLevels_nat_bracket [OF n2 n1024] unfolding x_def fl_def by metis
  have R: "1 \<le> x" "x < 47" using log2_nat_range [OF n2 assms(2)] by (simp_all add: x_def)
  have "real fl - 1 \<le> x" using log2_floorlog [OF assms(1)] by (simp add: x_def fl_def)
  then have "fl \<le> 47" using R by linarith
  then have "(2::real) ^ fl \<le> 2 ^ 47" by (rule power_increasing) simp
  then have "1 / 2 ^ 47 \<le> 1 / (2::real) ^ fl" by (rule divide_left_mono) simp_all
  then have p: "1 / 140737488355328 \<le> 1 / (2::real) ^ fl" by simp
  have "2 powr of_int (\<lfloor>log 2 x\<rfloor> - 52) \<le> x / 2 ^ 52" using double_spacing_le [of x] R by simp
  then have u: "2 powr of_int (\<lfloor>log 2 x\<rfloor> - 52) \<le> x / 4503599627370496" by simp
  have "x \<le> real fl - 1 / 2 ^ fl" using log2_nat_below_power [OF assms(1)] by (simp add: x_def fl_def)
  with p u R have "x + 2 powr of_int (\<lfloor>log 2 x\<rfloor> - 52) / 2 < real fl" by linarith
  then have "j + 1 = int fl" using lo by simp
  with j show ?thesis by (simp add: length_mip_chain [OF assms(1)] fl_def)
qed

lemma getMipChainLevels_chain_witness: "getMipChainLevels (Num 257) = Num 9"
proof -
  have "length (mip_chain 257) = 9" by (simp add: mip_chain.simps)
  then show ?thesis using getMipChainLevels_chain [of 257] by simp
qed

text \<open>
  C18. For every dimension \<open>n\<close> with \<open>0 < n < 2^1024\<close>, the count is the length of
  the mip chain or one more, never less and never further off.
\<close>

theorem getMipChainLevels_chain_bounds:
  assumes "0 < n" "n < 2 ^ 1024"
  shows "getMipChainLevels (Num (of_nat n)) = Num (of_nat (length (mip_chain n))) \<or>
         getMipChainLevels (Num (of_nat n)) = Num (of_nat (length (mip_chain n) + 1))"
proof (cases "n = 1")
  case True
  then show ?thesis using getMipChainLevels_one by (simp add: mip_chain.simps)
next
  case False
  then have n2: "2 \<le> n" using assms(1) by simp
  obtain j where "getMipChainLevels (Num (of_nat n)) = Num (of_int (j + 1))"
    "int (floorlog 2 n) - 1 \<le> j" "j \<le> int (floorlog 2 n)"
    using getMipChainLevels_nat_bracket [OF n2 assms(2)] by metis
  moreover have "j + 1 = int (floorlog 2 n) \<or> j + 1 = int (floorlog 2 n) + 1"
    using calculation(2,3) by linarith
  ultimately show ?thesis by (auto simp: length_mip_chain [OF assms(1)])
qed

lemma getMipChainLevels_chain_bounds_witness:
  "getMipChainLevels (Num 300) = Num 9 \<or> getMipChainLevels (Num 300) = Num 10"
proof -
  have "length (mip_chain 300) = 9" by (simp add: mip_chain.simps)
  then show ?thesis using getMipChainLevels_chain_bounds [of 300] by simp
qed

text \<open>
  C19. Just below \<open>2^53\<close>, for \<open>2^53 - 8 \<le> n < 2^53\<close>, \<open>Math.log2(n)\<close>
  rounds to the double 53, and the code reports 54 levels for a mip chain of 53.
\<close>

theorem getMipChainLevels_near_2_53:
  assumes "2 ^ 53 - 8 \<le> n" "n < 2 ^ 53"
  shows "getMipChainLevels (Num (of_nat n)) = Num 54 \<and> length (mip_chain n) = 53"
proof -
  define x where "x = log 2 (real n)"
  define t :: real where "t = 1 / 2 ^ 50"
  have n2: "2 \<le> n" and n0: "0 < n" using assms(1) by simp_all
  have n1024: "n < 2 ^ 1024" using assms(2) by (rule less_le_trans) simp
  have R: "x < 53" using log2_nat_range [OF n2 assms(2)] by (simp add: x_def)
  have "2 ^ 53 * (1 - t) \<le> real n"
  proof -
    have "real (2 ^ 53 - 8) \<le> real n" using assms(1) by (simp only: of_nat_le_iff)
    then show ?thesis by (simp add: t_def)
  qed
  then have "log 2 (2 ^ 53 * (1 - t)) \<le> x"
    unfolding x_def by (subst log_le_cancel_iff) (simp_all add: t_def n0)
  moreover have "log 2 (2 ^ 53 * (1 - t)) = log 2 (2 ^ 53) + log 2 (1 - t)"
    by (rule log_mult_pos) (simp_all add: t_def)
  moreover have "log 2 ((2::real) ^ 53) = real 53" by (rule log_pow_cancel) simp_all
  moreover have "- 2 * (t + 2 * t\<^sup>2) \<le> log 2 (1 - t)" by (rule log2_one_minus_ge) (simp_all add: t_def)
  ultimately have xlo: "53 - 2 * (t + 2 * t\<^sup>2) \<le> x" by linarith
  have "2 * (t + 2 * t\<^sup>2) \<le> 1" by (simp add: t_def power2_eq_square)
  with xlo have x52: "52 \<le> x" by linarith
  have fl: "floorlog 2 n = 53" using log2_floorlog [OF n0] R x52 by (simp add: x_def)
  have "\<lfloor>log 2 x\<rfloor> = 5"
    using x52 R by (subst floor_log_eq_powr_iff) (simp_all add: powr_numeral)
  then have "2 powr of_int (\<lfloor>log 2 x\<rfloor> - 52) = (2::real) powi (5 - 52)" by (simp only: powr2_int)
  then have h: "2 powr of_int (\<lfloor>log 2 x\<rfloor> - 52) / 2 = (1 / 2 ^ 48 :: real)"
    by (simp add: power_int_def power_one_over)
  obtain j where j: "getMipChainLevels (Num (of_nat n)) = Num (of_int (j + 1))"
    and hi: "real (floorlog 2 n) - 2 powr of_int (\<lfloor>log 2 x\<rfloor> - 52) / 2 < x \<Longrightarrow> j = int (floorlog 2 n)"
    using getMipChainLevels_nat_bracket [OF n2 n1024] unfolding x_def by metis
  have g: "real (floorlog 2 n) - 2 powr of_int (\<lfloor>log 2 x\<rfloor> - 52) / 2 = 53 - 1 / 2 ^ 48"
    unfolding h fl by simp
  have "2 * (t + 2 * t\<^sup>2) < 1 / 2 ^ 48" by (simp add: t_def power2_eq_square)
  with xlo g have "real (floorlog 2 n) - 2 powr of_int (\<lfloor>log 2 x\<rfloor> - 52) / 2 < x" by linarith
  then have "j = 53" using hi fl by simp
  with j fl show ?thesis by (simp add: length_mip_chain [OF n0])
qed

lemma getMipChainLevels_near_2_53_witness:
  "getMipChainLevels (Num 9007199254740991) = Num 54 \<and> length (mip_chain 9007199254740991) = 53"
  using getMipChainLevels_near_2_53 [of 9007199254740991] by simp

text \<open>
  C20. A positive double below one, which the precondition excludes, gives zero or a
  negative number of levels rather than an error.
\<close>

theorem getMipChainLevels_below_one:
  assumes "2 powi -1074 \<le> q" "q < 1" "round_to_double q = Num q"
  shows "\<exists>k \<le> 0. getMipChainLevels (Num q) = Num (of_int k)"
proof -
  define x where "x = log 2 (real_of_rat q)"
  have q0: "0 < q" using assms(1) by (rule less_le_trans [rotated]) simp
  have rq0: "0 < real_of_rat q" using q0 by simp
  have "q \<le> 1 - 2 powi -53" by (rule double_below_one [OF assms(3) q0 assms(2)])
  then have "real_of_rat q \<le> real_of_rat (1 - 2 powi -53)" by (simp only: of_rat_less_eq)
  then have "real_of_rat q \<le> 1 - 1 / 2 ^ 53"
    by (simp add: of_rat_divide)
  then have "x \<le> log 2 (1 - 1 / 2 ^ 53)" using rq0 by (simp add: x_def)
  also have "\<dots> \<le> - (1 / 2 ^ 53)" by (rule log2_one_minus_le) simp_all
  finally have xhi: "x \<le> - (1 / 2 ^ 53)" .
  have "real_of_rat (2 powi -1074) \<le> real_of_rat q" using assms(1) by (simp only: of_rat_less_eq)
  then have "2 powr of_int (-1074) \<le> real_of_rat q" by (simp only: of_rat_powi2 powr2_int)
  moreover have "(1::real) < 2" by simp
  ultimately have "of_int (-1074) \<le> x"
    unfolding x_def using le_log_iff [of 2 "real_of_rat q" "of_int (-1074)"] rq0 by blast
  then have xlo: "- 1074 \<le> x" by simp
  have "(2::real) powr of_int (-53) = 1 / 2 ^ 53"
    by (simp only: powr2_int) (simp add: power_int_def power_one_over)
  with xhi have "2 powr of_int (-53) \<le> - x" by simp
  then obtain j where j: "math_floor (round_real_to_double x) = Num (of_int j)" "- 1074 \<le> j" "j < 0"
    using math_floor_round_negative [of x "-53" 1074] xhi xlo by force
  then have "getMipChainLevels (Num q) = Num (of_int (j + 1))"
    using q0 js_add_int_one [of j] by (simp add: getMipChainLevels_def math_log2_def x_def)
  with j show ?thesis by (intro exI [of _ "j + 1"]) simp
qed

lemma getMipChainLevels_below_one_witness:
  "round_to_double (1 / 2) = Num (1 / 2) \<and> (\<exists>k \<le> 0. getMipChainLevels (Num (1 / 2)) = Num (of_int k))"
proof -
  have d: "round_to_double (1 / 2) = Num (1 / 2)" by code_simp
  have "(2::rat) powi -1074 \<le> 1 / 2" by (rule double_min_le) simp
  from getMipChainLevels_below_one [OF this _ d] d show ?thesis by simp
qed

end
