(* ===== verification/Binary_Locator.thy ===== *)
theory Binary_Locator
  imports Path_Module JS_Number
begin

text \<open>
  \<open>getBinaryDirectory\<close> (lines 13--25 of \<^verbatim>\<open>src/lib/utilities.ts\<close>). The host
  is a record of what the function reads from it: the value of \<open>os.platform()\<close>,
  the module's directory \<^verbatim>\<open>__dirname\<close>, and the outcome of the query
  \<^verbatim>\<open>si.osInfo()\<close> of the \<^verbatim>\<open>systeminformation\<close> package, either the
  three fields the code destructures or the error its promise rejects with. The
  function returns the host calls it made, in order, and the value its promise
  settles with: the joined directory, or the rejection it propagates. The
  \<open>join\<close> it calls is the one of the host's \<^verbatim>\<open>path\<close> module
  (\<open>path_module_for\<close>): POSIX, or win32 on Windows.
  \<open>centos7_override\<close> is the condition of line 19 on the three fields, the
  pure decision the specification asks to keep testable.
\<close>

record os_info =
  distro :: js_string
  release :: js_string
  kernel :: js_string

record host =
  host_platform :: os_platform
  module_dir :: js_string
  os_info_result :: "js_error + os_info"

datatype host_call = CallPlatform | CallOsInfo

text \<open>
  \<^verbatim>\<open>(/CentOS/g.test(distro) || /alios7/g.test(kernel)) && (~~parseFloat(release) === 7)\<close>:
  each evaluation of a literal creates a fresh RegExp object, so both tests start at
  \<open>lastIndex = 0\<close>.
\<close>

definition centos7_override :: "js_string \<Rightarrow> js_string \<Rightarrow> js_string \<Rightarrow> bool" where
  "centos7_override d r k \<longleftrightarrow>
     (fst (regexp_test (regexp_literal ''CentOS'' True) d) \<or>
      fst (regexp_test (regexp_literal ''alios7'' True) k)) \<and>
     js_number_strict_eq (js_bitwise_not (js_bitwise_not (parse_float r))) (Num 7)"

definition getBinaryDirectory :: "host \<Rightarrow> host_call list \<times> (js_error + js_string)" where
  "getBinaryDirectory h =
     (let join = pm_join (path_module_for (host_platform h));
          plat = platform_tag (host_platform h)
      in if plat = ''linux'' then
           (case os_info_result h of
              Inl e \<Rightarrow> ([CallPlatform, CallOsInfo], Inl e)
            | Inr info \<Rightarrow>
                let plat' = (if centos7_override (distro info) (release info) (kernel info)
                             then ''centos7'' else plat)
                in ([CallPlatform, CallOsInfo], Inr (join [module_dir h, ''../../../bin/'', plat'])))
         else ([CallPlatform], Inr (join [module_dir h, ''../../../bin/'', plat])))"

subsection \<open>Lemmas\<close>

lemma centos7_override_char:
  "centos7_override d r k \<longleftrightarrow>
     (sublist ''CentOS'' d \<or> sublist ''alios7'' k) \<and> sint (to_int32 (parse_float r)) = 7"
proof -
  have "(of_int (sint (to_int32 (parse_float r))) :: rat) = 7 \<longleftrightarrow> sint (to_int32 (parse_float r)) = 7"
    by (metis of_int_eq_iff of_int_numeral)
  then show ?thesis
    by (simp add: centos7_override_def regexp_test_literal js_double_not)
qed

lemma centos7_override_num:
  assumes "parse_float r = Num q"
  shows "centos7_override d r k \<longleftrightarrow>
    (sublist ''CentOS'' d \<or> sublist ''alios7'' k) \<and> trunc_toward_zero q mod 2 ^ 32 = 7"
  using assms by (simp add: centos7_override_char to_int32_def sint_int32_eq_7)

lemma centos7_override_not_num:
  assumes "\<forall>q. parse_float r \<noteq> Num q"
  shows "\<not> centos7_override d r k"
proof -
  have "to_int32 (parse_float r) = 0"
    using assms by (cases "parse_float r") (simp_all add: to_int32_def)
  then show ?thesis by (simp add: centos7_override_char)
qed

lemma trunc_toward_zero_eq_7: "trunc_toward_zero q = 7 \<longleftrightarrow> 7 \<le> q \<and> q < 8"
proof (cases "q < 0")
  case True
  have "trunc_toward_zero q \<le> 0" using True by (simp add: trunc_toward_zero_def)
  with True show ?thesis by auto
next
  case False
  then show ?thesis by (simp add: trunc_toward_zero_def floor_eq_iff)
qed

lemma trunc_toward_zero_int32:
  assumes "- (2 ^ 31) < q" "q < 2 ^ 31"
  shows "- (2 ^ 31) < trunc_toward_zero q \<and> trunc_toward_zero q < 2 ^ 31"
proof (cases "q < 0")
  case True
  have a: "\<lfloor>- q\<rfloor> < 2 ^ 31" using assms(1) by (simp add: floor_less_iff)
  have b: "0 \<le> \<lfloor>- q\<rfloor>" using True by simp
  have "trunc_toward_zero q = - \<lfloor>- q\<rfloor>" using True by (simp add: trunc_toward_zero_def)
  with a b show ?thesis by linarith
next
  case False
  have "\<lfloor>q\<rfloor> < 2 ^ 31" using assms(2) by (simp add: floor_less_iff)
  with False show ?thesis by (simp add: trunc_toward_zero_def)
qed

lemma int32_mod_eq_7:
  "- (2 ^ 31) < (t::int) \<Longrightarrow> t < 2 ^ 31 \<Longrightarrow> t mod 2 ^ 32 = 7 \<longleftrightarrow> t = 7"
proof (cases "t < 0")
  case True
  assume lo: "- (2 ^ 31) < t"
  have "(t + 2 ^ 32) mod 2 ^ 32 = t + 2 ^ 32"
    using True lo by (intro mod_pos_pos_trivial) simp_all
  then have "t mod 2 ^ 32 = t + 2 ^ 32" by (simp only: mod_add_self2)
  with True lo show ?thesis by simp
next
  case False
  assume "t < 2 ^ 31"
  with False have "t mod 2 ^ 32 = t" by (intro mod_pos_pos_trivial) simp_all
  then show ?thesis by simp
qed

lemma plain_segment_tag: "plain_segment (platform_tag p)"
  by (cases p) (simp_all add: plain_segment_def)

lemma getBinaryDirectory_result:
  assumes "snd (getBinaryDirectory h) = Inr d"
  shows "\<exists>t. (t = ''centos7'' \<or> t = platform_tag (host_platform h)) \<and>
    d = pm_join (path_module_for (host_platform h)) [module_dir h, ''../../../bin/'', t]"
  using assms
  by (auto simp: getBinaryDirectory_def Let_def platform_tag_linux_iff split: if_splits sum.splits)

subsection \<open>Properties\<close>

text \<open>
  C1. On Linux, when \<open>si.osInfo()\<close> resolves, \<open>getBinaryDirectory\<close> queries the
  platform, then the operating-system information, and settles with
  \<open>join(__dirname, '../../../bin/', tag)\<close>, where the tag is \<open>centos7\<close> exactly
  when the distribution contains \<open>CentOS\<close> or the kernel contains \<open>alios7\<close>, and
  \<open>ToInt32\<close> of the parsed release is 7; otherwise it is \<open>linux\<close>.
\<close>

theorem getBinaryDirectory_linux:
  assumes "host_platform h = Linux" "os_info_result h = Inr info"
  shows "getBinaryDirectory h = ([CallPlatform, CallOsInfo],
     Inr (node_join [module_dir h, ''../../../bin/'',
       if (sublist ''CentOS'' (distro info) \<or> sublist ''alios7'' (kernel info)) \<and>
          sint (to_int32 (parse_float (release info))) = 7
       then ''centos7'' else ''linux'']))"
  using assms by (simp add: getBinaryDirectory_def centos7_override_char)

lemma getBinaryDirectory_linux_witness:
  "getBinaryDirectory
     \<lparr>host_platform = Linux, module_dir = ''/opt/tc/dist/src/lib'',
      os_info_result = Inr \<lparr>distro = ''CentOS Linux'', release = ''7.9'', kernel = ''3.10.0''\<rparr>\<rparr> =
   ([CallPlatform, CallOsInfo], Inr ''/opt/tc/bin/centos7'')"
proof -
  have p: "sint (to_int32 (parse_float ''7.9'')) = 7" by code_simp
  have j: "node_join [''/opt/tc/dist/src/lib'', ''../../../bin/'', ''centos7''] = ''/opt/tc/bin/centos7''"
    by code_simp
  have s: "sublist ''CentOS'' ''CentOS Linux''" by code_simp
  show ?thesis
    using getBinaryDirectory_linux
      [of "\<lparr>host_platform = Linux, module_dir = ''/opt/tc/dist/src/lib'',
            os_info_result = Inr \<lparr>distro = ''CentOS Linux'', release = ''7.9'', kernel = ''3.10.0''\<rparr>\<rparr>"
          "\<lparr>distro = ''CentOS Linux'', release = ''7.9'', kernel = ''3.10.0''\<rparr>"]
      p j s by simp
qed

text \<open>
  C2. On every platform other than Linux, \<open>getBinaryDirectory\<close> makes no
  operating-system query and settles with \<open>join(__dirname, '../../../bin/', platform)\<close>,
  the \<open>join\<close> of the platform's \<^verbatim>\<open>path\<close> module.
\<close>

theorem getBinaryDirectory_non_linux:
  assumes "host_platform h \<noteq> Linux"
  shows "getBinaryDirectory h =
    ([CallPlatform], Inr (pm_join (path_module_for (host_platform h))
                             [module_dir h, ''../../../bin/'', platform_tag (host_platform h)]))"
  using assms by (simp add: getBinaryDirectory_def platform_tag_linux_iff)

lemma getBinaryDirectory_non_linux_witness:
  "getBinaryDirectory
     \<lparr>host_platform = Darwin, module_dir = ''/opt/tc/dist/src/lib'', os_info_result = Inl (HostError [])\<rparr> =
   ([CallPlatform], Inr ''/opt/tc/bin/darwin'')"
proof -
  have j: "node_join [''/opt/tc/dist/src/lib'', ''../../../bin/'', ''darwin''] = ''/opt/tc/bin/darwin''"
    by code_simp
  show ?thesis
    using getBinaryDirectory_non_linux
      [of "\<lparr>host_platform = Darwin, module_dir = ''/opt/tc/dist/src/lib'', os_info_result = Inl (HostError [])\<rparr>"]
      j by simp
qed

text \<open>
  C3. The host calls of \<open>getBinaryDirectory\<close>: \<open>os.platform()\<close> always, and
  \<open>si.osInfo()\<close> exactly on Linux.
\<close>

theorem getBinaryDirectory_calls:
  "fst (getBinaryDirectory h) =
     (if host_platform h = Linux then [CallPlatform, CallOsInfo] else [CallPlatform])"
  by (simp add: getBinaryDirectory_def Let_def platform_tag_linux_iff split: sum.splits)

text \<open>
  C4. \<open>getBinaryDirectory\<close> rejects exactly when the platform is Linux and
  \<open>si.osInfo()\<close> rejects, and then with the same error.
\<close>

theorem getBinaryDirectory_error:
  "snd (getBinaryDirectory h) = Inl e \<longleftrightarrow>
     host_platform h = Linux \<and> os_info_result h = Inl e"
  by (auto simp: getBinaryDirectory_def Let_def platform_tag_linux_iff split: sum.splits)

text \<open>
  C5. On a POSIX host, for a module directory \<open>/s1/.../sn\<close> of plain segments, the binary directory
  is three levels up, then \<open>bin\<close>, then the platform tag or \<open>centos7\<close>: the
  layout \<open><root>/bin/<tag>\<close> of the specification.
\<close>

theorem getBinaryDirectory_layout:
  assumes "host_platform h \<noteq> Win32"
    and "module_dir h = join_with ''/'' ([] # segs)" "segs \<noteq> []" "\<forall>s \<in> set segs. plain_segment s"
    and "snd (getBinaryDirectory h) = Inr d"
  shows "\<exists>t. (t = ''centos7'' \<or> t = platform_tag (host_platform h)) \<and>
    d = ''/'' @ join_with ''/'' (take (length segs - 3) segs @ [''bin'', t])"
proof -
  obtain t where t: "t = ''centos7'' \<or> t = platform_tag (host_platform h)"
    and d: "d = node_join [module_dir h, ''../../../bin/'', t]"
    using getBinaryDirectory_result [OF assms(5)] assms(1) by auto
  have "plain_segment t" using t plain_segment_tag by (auto simp: plain_segment_def)
  with assms(2-4) d t show ?thesis by (auto simp: node_join_bin_dir)
qed

lemma getBinaryDirectory_layout_witness:
  "snd (getBinaryDirectory
     \<lparr>host_platform = Darwin, module_dir = ''/opt/tc/dist/src/lib'', os_info_result = Inl (HostError [])\<rparr>) =
     Inr ''/opt/tc/bin/darwin'' \<and>
   (\<exists>t. (t = ''centos7'' \<or> t = ''darwin'') \<and>
     ''/opt/tc/bin/darwin'' = ''/'' @ join_with ''/'' [''opt'', ''tc'', ''bin'', t])"
proof -
  let ?h = "\<lparr>host_platform = Darwin, module_dir = ''/opt/tc/dist/src/lib'', os_info_result = Inl (HostError [])\<rparr>"
  have r: "snd (getBinaryDirectory ?h) = Inr ''/opt/tc/bin/darwin''" by code_simp
  have "module_dir ?h = join_with ''/'' ([] # [''opt'', ''tc'', ''dist'', ''src'', ''lib''])" by simp
  moreover have "\<forall>s \<in> set [''opt'', ''tc'', ''dist'', ''src'', ''lib'']. plain_segment s"
    by (simp add: plain_segment_def)
  ultimately show ?thesis
    using getBinaryDirectory_layout [OF _ _ _ _ r] r by simp
qed

text \<open>
  C6. On a POSIX host, for every absolute module directory, however written (with \<open>.\<close>,
  \<open>..\<close> or repeated slashes), a resolved directory is a normalised absolute path,
  which \<open>path.normalize\<close> leaves unchanged.
\<close>

theorem getBinaryDirectory_normalized:
  assumes "host_platform h \<noteq> Win32" "module_dir h \<noteq> []" "hd (module_dir h) = slash"
    and "snd (getBinaryDirectory h) = Inr d"
  shows "abs_normal d \<and> node_normalize d = d"
proof -
  obtain t where t: "t = ''centos7'' \<or> t = platform_tag (host_platform h)"
    and d: "d = node_join [module_dir h, ''../../../bin/'', t]"
    using getBinaryDirectory_result [OF assms(4)] assms(1) by auto
  have "plain_segment t" using t plain_segment_tag by (auto simp: plain_segment_def)
  then show ?thesis using node_join_abs_normal [OF assms(2,3)] d by simp
qed

lemma getBinaryDirectory_normalized_witness:
  "snd (getBinaryDirectory
     \<lparr>host_platform = Darwin, module_dir = ''/opt/./tc//dist/src/lib/'', os_info_result = Inl (HostError [])\<rparr>) =
     Inr ''/opt/tc/bin/darwin'' \<and>
   abs_normal ''/opt/tc/bin/darwin'' \<and> node_normalize ''/opt/tc/bin/darwin'' = ''/opt/tc/bin/darwin''"
proof -
  let ?h = "\<lparr>host_platform = Darwin, module_dir = ''/opt/./tc//dist/src/lib/'', os_info_result = Inl (HostError [])\<rparr>"
  have r: "snd (getBinaryDirectory ?h) = Inr ''/opt/tc/bin/darwin''" by code_simp
  show ?thesis using getBinaryDirectory_normalized [OF _ _ _ r] r by simp
qed

text \<open>
  C7. On Windows the binary directory is built by \<^verbatim>\<open>path.win32.join\<close>: for a
  module directory \<open>D:\s1\...\sn\<close> on a drive, of plain components, it is
  \<open>D:\s1\...\s(n-3)\bin\win32\<close>, written with backslashes, and no
  operating-system query is made.
\<close>

theorem getBinaryDirectory_win32:
  assumes "host_platform h = Win32" "is_windows_device_root dr"
    and "module_dir h = [dr, colon] @ concat (map (\<lambda>s. backslash # s) segs)"
    and "\<forall>s \<in> set segs. win32_plain_segment s"
  shows "getBinaryDirectory h = ([CallPlatform],
    Inr ([dr, colon] @ concat (map (\<lambda>s. backslash # s) (take (length segs - 3) segs @ [''bin'', ''win32'']))))"
proof -
  have "win32_plain_segment ''win32''" by (simp add: win32_plain_segment_def plain_segment_def)
  then show ?thesis
    using assms(1,3) win32_join_bin_dir [OF assms(2,4)] by (simp add: getBinaryDirectory_def)
qed

lemma getBinaryDirectory_win32_witness:
  "getBinaryDirectory
     \<lparr>host_platform = Win32,
      module_dir = ''C:'' @ [backslash] @ ''app'' @ [backslash] @ ''dist'' @ [backslash] @ ''src'' @ [backslash] @ ''lib'',
      os_info_result = Inl (HostError [])\<rparr> =
   ([CallPlatform], Inr (''C:'' @ [backslash] @ ''app'' @ [backslash] @ ''bin'' @ [backslash] @ ''win32''))"
proof -
  have d: "is_windows_device_root (CHR ''C'')" by (simp add: is_windows_device_root_def)
  have s: "\<forall>s \<in> set [''app'', ''dist'', ''src'', ''lib'']. win32_plain_segment s"
    by (simp add: win32_plain_segment_def plain_segment_def)
  show ?thesis
    using getBinaryDirectory_win32
      [of "\<lparr>host_platform = Win32,
            module_dir = ''C:'' @ [backslash] @ ''app'' @ [backslash] @ ''dist'' @ [backslash] @ ''src'' @ [backslash] @ ''lib'',
            os_info_result = Inl (HostError [])\<rparr>" "CHR ''C''" "[''app'', ''dist'', ''src'', ''lib'']"]
      d s by simp
qed

text \<open>
  C8. For a release that parses to a number in the 32-bit range, the release part of
  the CentOS 7 check is the one of the specification: the number truncated toward
  zero is 7, that is, it lies in \<open>[7, 8)\<close>.
\<close>

theorem centos7_override_release:
  assumes "parse_float r = Num q" "- (2 ^ 31) < q" "q < 2 ^ 31"
  shows "centos7_override d r k \<longleftrightarrow>
    (sublist ''CentOS'' d \<or> sublist ''alios7'' k) \<and> 7 \<le> q \<and> q < 8"
  using centos7_override_num [OF assms(1)] trunc_toward_zero_int32 [OF assms(2,3)]
    int32_mod_eq_7 trunc_toward_zero_eq_7
  by metis

lemma centos7_override_release_witness:
  "centos7_override ''CentOS Linux'' ''7.9'' ''3.10.0''"
proof -
  have p: "parse_float ''7.9'' = Num (4447304632028365 / 562949953421312)" by code_simp
  have "sublist ''CentOS'' ''CentOS Linux''" by code_simp
  then show ?thesis
    using centos7_override_release [OF p, of "''CentOS Linux''" "''3.10.0''"] by simp
qed

text \<open>
  C9. For every release string, the release part of the CentOS 7 check is the one of
  \<^verbatim>\<open>~~\<close> on the parsed number: \<open>parseFloat\<close> must give a finite number whose
  truncation toward zero is 7 modulo \<open>2^32\<close>. A release that parses to \<open>NaN\<close>
  or an infinity never counts, and one that is \<open>7 + m * 2^32\<close> after truncation does.
\<close>

theorem centos7_override_wraps:
  "centos7_override d r k \<longleftrightarrow>
     (sublist ''CentOS'' d \<or> sublist ''alios7'' k) \<and>
     (\<exists>q. parse_float r = Num q \<and> trunc_toward_zero q mod 2 ^ 32 = 7)"
proof (cases "\<exists>q. parse_float r = Num q")
  case True
  then obtain q where q: "parse_float r = Num q" by blast
  show ?thesis using centos7_override_num [OF q] q by simp
next
  case False
  then show ?thesis using centos7_override_not_num [of r d k] by auto
qed

lemma centos7_override_wraps_witness:
  "centos7_override ''CentOS'' ''4294967303'' []"
proof -
  have p: "parse_float ''4294967303'' = Num 4294967303" by code_simp
  have "sublist ''CentOS'' ''CentOS''" by simp
  moreover have "trunc_toward_zero 4294967303 mod 2 ^ 32 = 7" by (simp add: trunc_toward_zero_def)
  ultimately show ?thesis using centos7_override_wraps [of "''CentOS''" "''4294967303''" "[]"] p by auto
qed

text \<open>
  The examples of the specification: CentOS Linux 7.9 and an AliOS 7 kernel
  with release 7.2 take the \<open>centos7\<close> binaries; Ubuntu 7.0 (no pattern matches)
  and CentOS 8 do not.
\<close>

lemma centos7_override_examples:
  "centos7_override ''CentOS Linux'' ''7.9'' ''3.10.0-1160.el7.x86_64'' \<and>
   centos7_override ''AliOS'' ''7.2'' ''4.9.151-015.ali3000.alios7.x86_64'' \<and>
   \<not> centos7_override ''Ubuntu'' ''7.0'' ''5.4.0-42-generic'' \<and>
   \<not> centos7_override ''CentOS Linux'' ''8.4.2105'' ''4.18.0-305.el8.x86_64''"
  by code_simp

text \<open>
  The distribution pattern \<open>/CentOS/\<close> is case-sensitive: a distribution
  reported in another case does not match, although the specification asks for a
  case-insensitive match.
\<close>

lemma centos7_override_case_sensitive:
  "\<not> centos7_override ''centos'' ''7.9'' ''3.10.0'' \<and>
   \<not> centos7_override ''CENTOS LINUX'' ''7'' ''3.10.0''"
  by code_simp

text \<open>
  The release goes through \<open>parseFloat\<close> and \<open>ToInt32\<close>, not a plain
  truncation: \<open>4294967303\<close> (\<open>2^32 + 7\<close>) wraps to 7, \<open>6.9999999999999999\<close>
  rounds to the double 7, \<open>7.99999999999999999\<close> rounds to 8, a trailing
  non-numeric part is ignored and a leading one gives \<open>NaN\<close>, read as 0.
\<close>

lemma centos7_override_release_quirks:
  "centos7_override ''CentOS'' ''4294967303'' [] \<and>
   centos7_override ''CentOS'' ''6.9999999999999999'' [] \<and>
   \<not> centos7_override ''CentOS'' ''7.99999999999999999'' [] \<and>
   centos7_override ''CentOS'' '' 7.9.2009'' [] \<and>
   \<not> centos7_override ''CentOS'' ''v7'' []"
  by code_simp

end
