(* ===== verification/Locator_Steps.thy ===== *)
theory Locator_Steps
  imports Binary_Locator
begin

text \<open>
  The execution of the async function \<open>getBinaryDirectory\<close> (lines 13--25 of
  \<^verbatim>\<open>src/lib/utilities.ts\<close>) as a step relation, one step per statement of the
  body: \<open>platform()\<close> (line 14), the test of line 16, the suspension at
  \<^verbatim>\<open>await si.osInfo()\<close> (line 17) and its resumption with the value or the
  rejection of the promise, the override of lines 19--21, and the \<open>join\<close> of
  line 24 that settles the function's promise. A configuration is the control point
  with the local variable \<open>plat\<close> it holds, and the host calls made so far.
  The flag \<open>hang\<close> says that the promise returned by \<open>si.osInfo()\<close> never
  settles; the function then stays suspended at its \<open>await\<close>, and the answer
  \<open>os_info_result h\<close> is never observed. \<open>locator_reachable\<close> is the set of
  configurations a run from the entry reaches.
\<close>

datatype locator_state =
    LStart
  | LPlatform js_string
  | LAwaitOsInfo js_string
  | LResumed js_string os_info
  | LJoin js_string
  | LResolved js_string
  | LRejected js_error

type_synonym locator_config = "locator_state \<times> host_call list"

inductive locator_step :: "host \<Rightarrow> bool \<Rightarrow> locator_config \<Rightarrow> locator_config \<Rightarrow> bool"
  for h hang where
  platform: "locator_step h hang (LStart, tr) (LPlatform (platform_tag (host_platform h)), tr @ [CallPlatform])"
| query: "plat = ''linux'' \<Longrightarrow> locator_step h hang (LPlatform plat, tr) (LAwaitOsInfo plat, tr @ [CallOsInfo])"
| skip: "plat \<noteq> ''linux'' \<Longrightarrow> locator_step h hang (LPlatform plat, tr) (LJoin plat, tr)"
| resume: "\<not> hang \<Longrightarrow> os_info_result h = Inr info \<Longrightarrow>
     locator_step h hang (LAwaitOsInfo plat, tr) (LResumed plat info, tr)"
| reject: "\<not> hang \<Longrightarrow> os_info_result h = Inl e \<Longrightarrow>
     locator_step h hang (LAwaitOsInfo plat, tr) (LRejected e, tr)"
| override: "locator_step h hang (LResumed plat info, tr)
     (LJoin (if centos7_override (distro info) (release info) (kernel info) then ''centos7'' else plat), tr)"
| settle: "locator_step h hang (LJoin plat, tr) (LResolved (pm_join (path_module_for (host_platform h)) [module_dir h, ''../../../bin/'', plat]), tr)"

inductive locator_reachable :: "host \<Rightarrow> bool \<Rightarrow> locator_config \<Rightarrow> bool" for h hang where
  start: "locator_reachable h hang (LStart, [])"
| step: "locator_reachable h hang c \<Longrightarrow> locator_step h hang c c' \<Longrightarrow> locator_reachable h hang c'"

text \<open>The value the promise settles with, once it has settled.\<close>

fun settled_value :: "locator_state \<Rightarrow> (js_error + js_string) option" where
  "settled_value (LResolved d) = Some (Inr d)"
| "settled_value (LRejected e) = Some (Inl e)"
| "settled_value _ = None"

text \<open>Statements left before the promise settles.\<close>

fun locator_rank :: "locator_state \<Rightarrow> nat" where
  "locator_rank LStart = 5"
| "locator_rank (LPlatform _) = 4"
| "locator_rank (LAwaitOsInfo _) = 3"
| "locator_rank (LResumed _ _) = 2"
| "locator_rank (LJoin _) = 1"
| "locator_rank _ = 0"

text \<open>
  What a configuration says about the host and about the result of
  \<open>getBinaryDirectory\<close>: the invariant of the run.
\<close>

fun locator_inv :: "host \<Rightarrow> bool \<Rightarrow> locator_config \<Rightarrow> bool" where
  "locator_inv h hang (LStart, tr) = (tr = [])"
| "locator_inv h hang (LPlatform plat, tr) = (plat = platform_tag (host_platform h) \<and> tr = [CallPlatform])"
| "locator_inv h hang (LAwaitOsInfo plat, tr) =
     (host_platform h = Linux \<and> plat = ''linux'' \<and> tr = [CallPlatform, CallOsInfo])"
| "locator_inv h hang (LResumed plat info, tr) =
     (host_platform h = Linux \<and> plat = ''linux'' \<and> os_info_result h = Inr info \<and>
      tr = [CallPlatform, CallOsInfo] \<and> \<not> hang)"
| "locator_inv h hang (LJoin plat, tr) =
     (getBinaryDirectory h = (tr, Inr (pm_join (path_module_for (host_platform h)) [module_dir h, ''../../../bin/'', plat])) \<and>
      (host_platform h = Linux \<longrightarrow> \<not> hang))"
| "locator_inv h hang (LResolved d, tr) =
     (getBinaryDirectory h = (tr, Inr d) \<and> (host_platform h = Linux \<longrightarrow> \<not> hang))"
| "locator_inv h hang (LRejected e, tr) = (getBinaryDirectory h = (tr, Inl e) \<and> \<not> hang)"

subsection \<open>Lemmas\<close>

inductive_cases locator_step_StartE [elim!]: "locator_step h hang (LStart, tr) c"
inductive_cases locator_step_PlatformE [elim!]: "locator_step h hang (LPlatform plat, tr) c"
inductive_cases locator_step_AwaitE [elim!]: "locator_step h hang (LAwaitOsInfo plat, tr) c"
inductive_cases locator_step_ResumedE [elim!]: "locator_step h hang (LResumed plat info, tr) c"
inductive_cases locator_step_JoinE [elim!]: "locator_step h hang (LJoin plat, tr) c"
inductive_cases locator_step_ResolvedE [elim!]: "locator_step h hang (LResolved d, tr) c"
inductive_cases locator_step_RejectedE [elim!]: "locator_step h hang (LRejected e, tr) c"

lemma linux_platform_tag_iff: "''linux'' = platform_tag p \<longleftrightarrow> p = Linux"
  by (cases p) simp_all

lemma locator_step_inv:
  "locator_step h hang c c' \<Longrightarrow> locator_inv h hang c \<Longrightarrow> locator_inv h hang c'"
  by (induction rule: locator_step.induct)
     (auto simp: getBinaryDirectory_def Let_def platform_tag_linux_iff linux_platform_tag_iff)

lemma locator_reachable_invariant: "locator_reachable h hang c \<Longrightarrow> locator_inv h hang c"
  by (induction rule: locator_reachable.induct) (auto intro: locator_step_inv)

lemma locator_step_rank:
  "locator_step h hang c c' \<Longrightarrow> locator_rank (fst c') < locator_rank (fst c)"
  by (induction rule: locator_step.induct) simp_all

lemma locator_step_deterministic:
  "locator_step h hang c c1 \<Longrightarrow> locator_step h hang c c2 \<Longrightarrow> c1 = c2"
  by (induction rule: locator_step.induct) auto

text \<open>A configuration that has not settled takes a step unless it waits on a hanging query.\<close>

lemma locator_progress:
  assumes "settled_value s = None" "locator_inv h hang (s, tr)"
    and "\<not> (hang \<and> host_platform h = Linux)"
  shows "\<exists>c'. locator_step h hang (s, tr) c'"
proof (cases s)
  case (LPlatform plat)
  then show ?thesis by (cases "plat = ''linux''") (auto intro: locator_step.intros)
next
  case (LAwaitOsInfo plat)
  with assms(2,3) have "\<not> hang" by simp
  with LAwaitOsInfo show ?thesis by (cases "os_info_result h") (auto intro: locator_step.intros)
qed (use assms(1) in \<open>auto intro: locator_step.intros\<close>)

lemma locator_settles_from:
  assumes "locator_reachable h hang (s, tr)" "\<not> (hang \<and> host_platform h = Linux)"
  shows "\<exists>c. locator_reachable h hang c \<and> settled_value (fst c) \<noteq> None"
  using assms(1)
proof (induction "locator_rank s" arbitrary: s tr rule: less_induct)
  case less
  show ?case
  proof (cases "settled_value s")
    case None
    obtain c1 where st: "locator_step h hang (s, tr) c1"
      using locator_progress [OF None locator_reachable_invariant [OF less.prems] assms(2)] by blast
    obtain s1 tr1 where c1: "c1 = (s1, tr1)" by (cases c1)
    have "locator_rank s1 < locator_rank s" using locator_step_rank [OF st] c1 by simp
    moreover have "locator_reachable h hang (s1, tr1)"
      using locator_reachable.step [OF less.prems st] c1 by simp
    ultimately show ?thesis using less.hyps by blast
  next
    case (Some v)
    then show ?thesis using less.prems by auto
  qed
qed

lemma locator_settled_value:
  "locator_reachable h hang (s, tr) \<Longrightarrow> settled_value s = Some v \<Longrightarrow> getBinaryDirectory h = (tr, v)"
  using locator_reachable_invariant [of h hang "(s, tr)"] by (cases s) auto

subsection \<open>Properties\<close>

text \<open>
  C10. Liveness of the async function: a run from the call settles (resolves or
  rejects) exactly when it is not a Linux host whose \<open>si.osInfo()\<close> never settles.
  On every other platform \<open>getBinaryDirectory\<close> never waits for \<open>si.osInfo()\<close>,
  so a hanging query cannot block it there; on Linux it waits for it.
\<close>

theorem locator_settles_iff:
  "(\<exists>c. locator_reachable h hang c \<and> settled_value (fst c) \<noteq> None) \<longleftrightarrow>
     \<not> (hang \<and> host_platform h = Linux)"
proof
  assume "\<exists>c. locator_reachable h hang c \<and> settled_value (fst c) \<noteq> None"
  then obtain s tr where r: "locator_reachable h hang (s, tr)" and "settled_value s \<noteq> None" by auto
  then show "\<not> (hang \<and> host_platform h = Linux)"
    using locator_reachable_invariant [OF r] by (cases s) auto
next
  assume "\<not> (hang \<and> host_platform h = Linux)"
  then show "\<exists>c. locator_reachable h hang c \<and> settled_value (fst c) \<noteq> None"
    using locator_settles_from [OF locator_reachable.start] by blast
qed

lemma locator_settles_iff_witness:
  "\<exists>c. locator_reachable \<lparr>host_platform = Darwin, module_dir = ''/opt/tc/dist/src/lib'',
        os_info_result = Inl (HostError [])\<rparr> True c \<and> settled_value (fst c) \<noteq> None"
  using locator_settles_iff [of "\<lparr>host_platform = Darwin, module_dir = ''/opt/tc/dist/src/lib'',
        os_info_result = Inl (HostError [])\<rparr>" True] by simp

end
