(* ===== verification/Image_Size.thy ===== *)
theory Image_Size
  imports JS_Prelude
begin

text \<open>
  \<open>getImageSize\<close> (lines 47--48 of \<^verbatim>\<open>src/lib/utilities.ts\<close>) returns what the
  \<^verbatim>\<open>image-size\<close> package's \<open>imageSize(filepath)\<close> returns. The package reads
  the file and decodes its header; it is a collaborator of the code, not code of the
  repository, and enters the model as a parameter: the decoder, a function from the
  path to the dimensions or to the error it throws. The import of line 8 is marked
  \<^verbatim>\<open>@ts-ignore\<close>, so the result is not checked against the declared return
  type; the model forwards it unchanged, and a thrown error propagates unchanged.
\<close>

record image_size =
  width :: nat
  height :: nat

type_synonym image_decoder = "js_string \<Rightarrow> js_error + image_size"

definition getImageSize :: "image_decoder \<Rightarrow> js_string \<Rightarrow> js_error + image_size" where
  "getImageSize imageSize filepath = imageSize filepath"

lemma getImageSize_error: "getImageSize imageSize p = Inl e \<longleftrightarrow> imageSize p = Inl e"
  by (simp add: getImageSize_def)

end
