(* ===== verification/Spec2Isabelle.thy ===== *)
theory Spec2Isabelle
  imports Tool_Flags File_Names Mip_Levels Locator_Steps Image_Size
begin

text \<open>
  \<^bold>\<open>Verification of the utilities of SeinJS texture-compressor.\<close>

  \<^bold>\<open>The program.\<close> \<^verbatim>\<open>src/lib/utilities.ts\<close> holds the helpers the
  texture compressor's command-line tool uses: \<open>getBinaryDirectory\<close> chooses the
  directory of bundled encoder binaries for the host (with a special case for CentOS 7
  and AliOS 7 hosts, detected from the operating-system information that the
  \<^verbatim>\<open>systeminformation\<close> package reports), \<open>getFileExtension\<close> and
  \<open>getFileName\<close> split a path with Node's \<^verbatim>\<open>path\<close> module,
  \<open>getImageSize\<close> reads image dimensions through the \<^verbatim>\<open>image-size\<close> package,
  \<open>getMipChainLevels\<close> counts the levels of a mip chain, and
  \<open>createFlagsForTool\<close> and \<open>splitFlagAndValue\<close> format the user's extra flags
  for the encoders. The helpers share no state; they interact only through the
  JavaScript and Node built-ins they call, which this development models from their
  specification (ECMAScript) and implementation (Node's \<^verbatim>\<open>path\<close>). The
  \<^verbatim>\<open>path\<close> module that line 3 imports is \<^verbatim>\<open>path.win32\<close> on Windows and
  \<^verbatim>\<open>path.posix\<close> elsewhere, so the results of \<open>getBinaryDirectory\<close>,
  \<open>getFileExtension\<close> and \<open>getFileName\<close> depend on the host platform.

  \<^bold>\<open>Library layout.\<close>
  \<^item> \<open>JS_Prelude\<close>: the string type, character constants, \<open>slice\<close>,
    \<open>Array.prototype.join\<close>, the error type \<open>js_error\<close>, the \<open>scan_simps\<close>
    collection and shared list lemmas.
  \<^item> \<open>JS_Strings\<close>: StringIndexOf, \<open>String.prototype.split\<close> (with the
    abstract one-character split \<open>split_on_char\<close> and the refinement lemma
    \<open>split_from_char\<close>), and RegExp objects with literal patterns, their
    \<open>lastIndex\<close> state and \<open>test\<close>.
  \<^item> \<open>JS_Number\<close>: numbers as exact rationals next to \<open>NaN\<close> and the
    infinities; \<open>parseFloat\<close> (longest decimal prefix, rounded to the nearest
    double, ties to even, overflow at \<open>2^1024\<close>), \<open>ToInt32\<close> on \<open>32 word\<close> and
    the \<open>~\<close> operator, strict equality; an evaluation equation for the rounding.
  \<^item> \<open>JS_Math\<close>: \<open>Math.log2\<close> as the double nearest the exact real
    logarithm (\<open>round_real_to_double\<close>, the rounding of \<open>parseFloat\<close> lifted to
    a real argument) and \<open>Math.floor\<close>; the lemmas that a rounded value in the
    normal range lies within half a spacing of its argument and, below \<open>2^53\<close>,
    never crosses an integer (\<open>round_real_to_double_lattice\<close>,
    \<open>math_floor_round_bracket\<close>).
  \<^item> \<open>Node_Path\<close>: \<open>path.posix.parse\<close> and \<open>path.posix.basename\<close> as the
    right-to-left scans Node runs (loop variables as records, one step function per
    loop body), \<open>path.posix.join\<close> with the segment-level normalisation; the
    abstract readings \<open>last_component\<close> and \<open>ext_of\<close> with the refinement lemmas
    \<open>parse_ext_refines\<close>, \<open>node_basename_plain\<close>, \<open>node_basename_suffix\<close> and
    \<open>node_join_bin_dir\<close>; the scans of \<open>basename\<close> stated from an arbitrary
    start position, shared with the win32 variant; the predicate \<open>abs_normal\<close> of normalised absolute
    paths with \<open>node_join_abs_normal\<close> (a join under an absolute directory,
    however written, is normalised); the agreement of \<open>parse\<close> and
    \<open>basename\<close> on the base name.
  \<^item> \<open>Node_Path_Win32\<close>: \<^verbatim>\<open>path.win32.parse\<close>, \<open>basename\<close>,
    \<open>normalize\<close> and \<open>join\<close> (drive and UNC roots, both separators, backslash
    output), with the loop bodies of the POSIX variant. The abstract reading maps
    every separator to a slash (\<open>sep_to_slash\<close>); the win32 scans are the POSIX
    scans of the mapped path from the root on (\<open>parse_scan_win32_eq\<close>), which gives
    \<open>win32_parse_fields\<close>, \<open>win32_basename_plain\<close>,
    \<open>win32_basename_suffix\<close> and \<open>win32_join_bin_dir\<close>.
  \<^item> \<open>Path_Module\<close>: the values of \<open>os.platform()\<close>, the record
    \<open>path_module\<close> of the three imported functions, its two instances and
    \<open>path_module_for\<close>, the binding of line 3 for a platform.
  \<^item> \<open>Binary_Locator\<close>: \<open>getBinaryDirectory\<close> (lines 13--25) over a host
    record (the value of \<open>os.platform()\<close>, \<^verbatim>\<open>__dirname\<close>, the outcome of
    \<open>si.osInfo()\<close>), returning the host calls it made and its settled value or
    the rejection it propagates, joining with the host's module;
    \<open>centos7_override\<close> is the condition of line 19.
  \<^item> \<open>Locator_Steps\<close>: the execution of the same async body as an inductive
    step relation \<open>locator_step\<close> on configurations (a control point of type
    \<open>locator_state\<close> and the host calls so far): one step per statement, the
    \<open>await\<close> split into the call of \<open>si.osInfo()\<close> and the resumption with its
    value or its rejection, which never comes when the flag \<open>hang\<close> says that the
    promise of \<open>si.osInfo()\<close> never settles; \<open>locator_reachable\<close> collects the
    runs from the call. The invariant \<open>locator_inv\<close> (proved by rule induction)
    ties each control point to the function model, the measure \<open>locator_rank\<close>
    drives the proof that a run which is not blocked settles.
  \<^item> \<open>File_Names\<close>: \<open>getFileExtension\<close> (line 32) and
    \<open>getFileName\<close> (lines 39--40), each taking the imported module as a parameter.
  \<^item> \<open>Mip_Levels\<close>: \<open>getMipChainLevels\<close> (line 55) as the composition of
    \<open>math_log2\<close>, \<open>math_floor\<close> and the number addition \<open>js_add\<close>, and
    the mip chain \<open>mip_chain\<close> it counts.
  \<^item> \<open>Tool_Flags\<close>: \<open>createFlagsForTool\<close> (line 62) and
    \<open>splitFlagAndValue\<close> (lines 69--70), with the \<open>TypeError\<close> of a non-string
    entry as a value of the sum type.
  \<^item> \<open>Image_Size\<close>: \<open>getImageSize\<close> (lines 47--48) with the
    \<^verbatim>\<open>image-size\<close> package as a parameter, the decoder.

  \<^bold>\<open>What the lemmas show.\<close>
  \<^item> Binary locator (C1--C9): the result on Linux and on every other platform,
    the host calls made, the rejection propagated unchanged, the directory layout
    three levels above the module on POSIX hosts and, with backslashes under a
    drive, on Windows (C7), the result a normalised absolute path for every
    absolute module directory on POSIX hosts, the release test as truncation to 7
    in the 32-bit range (C8) and, for every release string, as truncation to 7
    modulo \<open>2^32\<close> of a finite parsed number (C9). Unnumbered lemmas evaluate the
    examples of the specification and the cases it leaves open (a case-sensitive
    distribution pattern, releases rounded by \<open>parseFloat\<close>).
  \<^item> Execution of the locator (C10): a run settles exactly when it is not a
    Linux host whose \<open>si.osInfo()\<close> never settles.
  \<^item> File names (C11--C16): the extension refines \<open>ext_of\<close> on POSIX and
    \<open>ext_plain\<close> of the last component after the root on Windows; name and
    extension give the base name back for every path, on both variants; the shape
    of an extension; dot-files.
  \<^item> Mip levels (C17--C20): the length of the halving chain for every dimension
    below \<open>2^47\<close>, at most one level more for every dimension below \<open>2^1024\<close>,
    that one level more just below \<open>2^53\<close>, and zero or fewer levels for a
    double below one.
  \<^item> Flags (C21--C26): the tokens of \<open>splitFlagAndValue\<close>, its error, the
    number and shape of its tokens, the round trip through a join with spaces, and
    the dash of \<open>createFlagsForTool\<close>.

  \<^bold>\<open>Bounds.\<close> Finite doubles are the rationals of \<open>js_number\<close>; a claim that
  is about doubles only says so (\<open>round_to_double q = Num q\<close> in C20, since the
  rationals of the model include values no double has). The rounded logarithm of a
  dimension \<open>n\<close> stays below the next integer when \<open>1 / 2^(\<lfloor>log2 n\<rfloor>+1)\<close>, the
  least distance of \<open>log2 n\<close> to it, exceeds half a spacing of the doubles around
  \<open>log2 n\<close>, at most \<open>log2 n / 2^53\<close>; the proof of C17 checks this for
  \<open>\<lfloor>log2 n\<rfloor> < 47\<close>, which covers every texture size. Just below \<open>2^53\<close> the
  distance is smaller than half a spacing (C19). No fuel is used: every loop of the
  model is structural recursion or a \<open>function\<close> with a measure.

  \<^bold>\<open>Not modelled.\<close> The \<^verbatim>\<open>image-size\<close> package, which reads and decodes
  a file, is a parameter of \<open>getImageSize\<close>: the model shows only that the
  helper forwards its result and its error. \<open>os.platform()\<close>,
  \<open>si.osInfo()\<close> and \<^verbatim>\<open>__dirname\<close> are inputs of the host record, every value
  allowed, and the step model adds the case of a query that never answers. Node's
  \<^verbatim>\<open>path.win32.normalize\<close> is modelled without the check for a colon in a
  relative path without a drive that later releases added; the binary directory is
  joined under the absolute \<^verbatim>\<open>__dirname\<close>, which never reaches it.
  \<open>Math.log2\<close> is implementation-approximated in ECMAScript; the model takes
  the correctly rounded result, which the engines deliver on the values of the claims,
  and an engine whose result is off by more than half a spacing is outside it. The
  sign of zero is not kept. Strings are lists of 8-bit characters, exact for the
  ASCII inputs of the helpers; \<open>parseFloat\<close> skips the white space that has an
  8-bit code, no-break space included.
\<close>

end
